theory Spec2Isabelle
  imports Complex_Main
begin

section \<open>JavaScript numbers\<close>

text \<open>
  The numeric fields of a rate-limit record are produced by \<^verbatim>\<open>parseInt\<close>, which
  yields \<^verbatim>\<open>NaN\<close> on a string with no leading digits. A number is therefore
  either \<open>NaN\<close> or a rational value; the doubles are those rationals a double can
  hold. The infinities are not modelled, and \<^verbatim>\<open>parseInt\<close> below is exact, which it is
  on the host up to \<open>2 ^ 53\<close>.
\<close>

datatype jsnum = NaN | Num rat

text \<open>Comparisons with \<open>NaN\<close> are false, arithmetic with \<open>NaN\<close> is \<open>NaN\<close>.\<close>

fun js_le :: "jsnum \<Rightarrow> jsnum \<Rightarrow> bool" where
  "js_le (Num a) (Num b) = (a \<le> b)"
| "js_le _ _ = False"

fun js_gt :: "jsnum \<Rightarrow> jsnum \<Rightarrow> bool" where
  "js_gt (Num a) (Num b) = (a > b)"
| "js_gt _ _ = False"

fun js_sub :: "jsnum \<Rightarrow> jsnum \<Rightarrow> jsnum" where
  "js_sub (Num a) (Num b) = Num (a - b)"
| "js_sub _ _ = NaN"

fun js_mul :: "jsnum \<Rightarrow> jsnum \<Rightarrow> jsnum" where
  "js_mul (Num a) (Num b) = Num (a * b)"
| "js_mul _ _ = NaN"

text \<open>\<^verbatim>\<open>Math.max(a, b)\<close>: \<open>NaN\<close> as soon as one argument is \<open>NaN\<close>.\<close>

fun js_max :: "jsnum \<Rightarrow> jsnum \<Rightarrow> jsnum" where
  "js_max (Num a) (Num b) = Num (max a b)"
| "js_max _ _ = NaN"

text \<open>
  A division, subtraction or multiplication of doubles yields the double nearest to the
  exact result. Which double that is belongs to the host: \<open>rnd\<close> is that function,
  from the exact result to the double the host produces.
\<close>

definition js_round :: "(rat \<Rightarrow> rat) \<Rightarrow> jsnum \<Rightarrow> jsnum" where
  "js_round rnd x = (case x of NaN \<Rightarrow> NaN | Num a \<Rightarrow> Num (rnd a))"

text \<open>
  What the proofs below use of the host's rounding: it keeps 0 and it is monotone.
\<close>

definition rounding :: "(rat \<Rightarrow> rat) \<Rightarrow> bool" where
  "rounding rnd \<longleftrightarrow> rnd 0 = 0 \<and> (\<forall>a b. a \<le> b \<longrightarrow> rnd a \<le> rnd b)"

section \<open>RateLimitTracker (src/static/js/stagvault.js)\<close>

text \<open>
  \<^verbatim>\<open>this.limits[provider] = { ...info, updatedAt: Date.now() }\<close>: the record a
  provider maps to. \<open>updatedAt\<close> is a \<^verbatim>\<open>Date.now()\<close> value, an integer number of
  milliseconds.
\<close>

record rate_info =
  limit :: jsnum
  remaining :: jsnum
  reset_seconds :: jsnum
  updatedAt :: int

type_synonym tracker = "string \<rightharpoonup> rate_info"

definition new_tracker :: tracker where
  "new_tracker = Map.empty"

definition update :: "tracker \<Rightarrow> string \<Rightarrow> jsnum \<times> jsnum \<times> jsnum \<Rightarrow> int \<Rightarrow> tracker" where
  "update limits provider info now =
     (case info of (l, r, s) \<Rightarrow>
        limits(provider \<mapsto> \<lparr>limit = l, remaining = r, reset_seconds = s, updatedAt = now\<rparr>))"

definition shouldWait :: "tracker \<Rightarrow> string \<Rightarrow> bool" where
  "shouldWait limits provider =
     (case limits provider of
        None \<Rightarrow> False
      | Some info \<Rightarrow> js_le (remaining info) (Num 1))"

text \<open>
  \<^verbatim>\<open>elapsed = (Date.now() - info.updatedAt) / 1000\<close>, then
  \<^verbatim>\<open>Math.max(0, info.reset_seconds - elapsed) * 1000\<close>. The argument \<open>now\<close> is the
  value of \<^verbatim>\<open>Date.now()\<close> at the call; the difference of the two time stamps is an
  integer and exact, the quotient, the difference and the product are rounded.
\<close>

definition waitTime :: "(rat \<Rightarrow> rat) \<Rightarrow> tracker \<Rightarrow> string \<Rightarrow> int \<Rightarrow> jsnum" where
  "waitTime rnd limits provider now =
     (case limits provider of
        None \<Rightarrow> Num 0
      | Some info \<Rightarrow>
          if \<not> shouldWait limits provider then Num 0
          else (let elapsed = js_round rnd (Num (of_int (now - updatedAt info) / 1000))
                in js_round rnd
                     (js_mul (js_max (Num 0) (js_round rnd (js_sub (reset_seconds info) elapsed)))
                        (Num 1000))))"

subsection \<open>The reserve threshold as the specification words it\<close>

text \<open>
  The specification describes a threshold that is a share of the provider's nominal
  limit: 10 percent under 100 requests per window, 5 percent for 100 to 500, 3 percent
  above 500. This definition follows those words; it is compared with \<open>shouldWait\<close>.
\<close>

definition spec_reserve_threshold :: "rat \<Rightarrow> rat" where
  "spec_reserve_threshold l =
     (if l < 100 then l * 10 / 100 else if l \<le> 500 then l * 5 / 100 else l * 3 / 100)"

definition spec_shouldWait :: "tracker \<Rightarrow> string \<Rightarrow> bool" where
  "spec_shouldWait limits provider =
     (case limits provider of
        None \<Rightarrow> False
      | Some info \<Rightarrow>
          (case (remaining info, limit info) of
             (Num r, Num l) \<Rightarrow> r \<le> spec_reserve_threshold l
           | _ \<Rightarrow> False))"

section \<open>Strings and \<^verbatim>\<open>parseInt\<close>\<close>

text \<open>
  Strings are lists of 8-bit characters; code points beyond ASCII are outside the model.
  \<open>string_of_nat\<close> is the decimal rendering a template literal gives a non-negative
  integer.
\<close>

definition digit_char :: "nat \<Rightarrow> char" where
  "digit_char d = char_of (48 + d)"

fun string_of_nat :: "nat \<Rightarrow> string" where
  "string_of_nat n =
     (if n < 10 then [digit_char n] else string_of_nat (n div 10) @ [digit_char (n mod 10)])"

declare string_of_nat.simps [simp del]

definition string_of_int :: "int \<Rightarrow> string" where
  "string_of_int i = (if i < 0 then CHR ''-'' # string_of_nat (nat (- i)) else string_of_nat (nat i))"

text \<open>A non-empty run of decimal digits.\<close>

definition decimal :: "string \<Rightarrow> bool" where
  "decimal s \<longleftrightarrow> s \<noteq> [] \<and> (\<forall>c \<in> set s. \<exists>d < 10. c = digit_char d)"

text \<open>
  \<^verbatim>\<open>parseInt(s)\<close> with no radix: leading white space is skipped, one sign is read, a
  \<^verbatim>\<open>0x\<close> prefix selects base 16, the longest run of digits is read, and the result is
  \<open>NaN\<close> when that run is empty. White space is the ASCII part of the language's set.
\<close>

definition is_js_whitespace :: "char \<Rightarrow> bool" where
  "is_js_whitespace c \<longleftrightarrow> c \<in> set [CHR 0x09, CHR 0x0A, CHR 0x0B, CHR 0x0C, CHR 0x0D, CHR 0x20]"

definition digit_of :: "char \<Rightarrow> nat option" where
  "digit_of c =
     (let n = (of_char c :: nat)
      in if 48 \<le> n \<and> n \<le> 57 then Some (n - 48)
         else if 97 \<le> n \<and> n \<le> 102 then Some (n - 87)
         else if 65 \<le> n \<and> n \<le> 70 then Some (n - 55)
         else None)"

definition radix_digit :: "nat \<Rightarrow> char \<Rightarrow> nat option" where
  "radix_digit R c = (case digit_of c of None \<Rightarrow> None | Some d \<Rightarrow> if d < R then Some d else None)"

definition digits_value :: "nat \<Rightarrow> string \<Rightarrow> nat" where
  "digits_value R Z = foldl (\<lambda>a c. a * R + (case radix_digit R c of None \<Rightarrow> 0 | Some d \<Rightarrow> d)) 0 Z"

definition js_parseInt :: "string \<Rightarrow> jsnum" where
  "js_parseInt s =
     (let s1 = dropWhile is_js_whitespace s;
          neg = (case s1 of c # _ \<Rightarrow> c = CHR ''-'' | [] \<Rightarrow> False);
          s2 = (case s1 of c # r \<Rightarrow> if c = CHR ''+'' \<or> c = CHR ''-'' then r else s1 | [] \<Rightarrow> s1);
          hex = (take 2 s2 = ''0x'' \<or> take 2 s2 = ''0X'');
          R = (if hex then 16 else 10);
          s3 = (if hex then drop 2 s2 else s2);
          Z = takeWhile (\<lambda>c. radix_digit R c \<noteq> None) s3
      in if Z = [] then NaN
         else Num (of_int ((if neg then - 1 else 1) * int (digits_value R Z))))"

section \<open>ProviderClient._directRequest (src/static/js/stagvault.js)\<close>

text \<open>
  What \<^verbatim>\<open>await fetch(url, { headers })\<close> produces is an input of the model: the promise
  rejects (no response), or it resolves to a response with a status, headers read
  through \<^verbatim>\<open>response.headers.get\<close> (\<open>None\<close> for \<^verbatim>\<open>null\<close>), and a body whose
  \<^verbatim>\<open>response.json()\<close> either parses or rejects (\<open>None\<close>).
\<close>

text \<open>
  A thrown value: an \<^verbatim>\<open>Error\<close> with its message, or one of the errors the language
  itself raises.
\<close>

datatype js_error = Error string | TypeError string | RangeError string | URIError string

record 'j http_response =
  status :: nat
  headers_get :: "string \<Rightarrow> string option"
  json :: "'j option"

datatype 'j fetch_outcome = Rejected js_error | Response "'j http_response"

definition ok :: "'j http_response \<Rightarrow> bool" where
  "ok r \<longleftrightarrow> 200 \<le> status r \<and> status r \<le> 299"

text \<open>\<^verbatim>\<open>h || d\<close> on a header value: \<^verbatim>\<open>null\<close> and the empty string are falsy.\<close>

definition or_default :: "string option \<Rightarrow> string \<Rightarrow> string" where
  "or_default h d = (case h of None \<Rightarrow> d | Some s \<Rightarrow> if s = [] then d else s)"

record provider_config =
  baseUrl :: string
  authType :: string
  authParam :: string

text \<open>The entries of \<^verbatim>\<open>PROVIDER_CONFIGS\<close>, with the fields \<^verbatim>\<open>_directRequest\<close> reads.\<close>

definition PROVIDER_CONFIGS :: "string \<rightharpoonup> provider_config" where
  "PROVIDER_CONFIGS =
     [''pixabay'' \<mapsto> \<lparr>baseUrl = ''https://pixabay.com/api/'', authType = ''query_param'',
                       authParam = ''key''\<rparr>,
      ''pexels'' \<mapsto> \<lparr>baseUrl = ''https://api.pexels.com/'', authType = ''header'',
                      authParam = ''Authorization''\<rparr>]"

record client =
  configs :: "string \<rightharpoonup> provider_config"
  apiKeys :: "string \<rightharpoonup> string"
  rateLimits :: tracker

definition new_client :: "(string \<rightharpoonup> string) \<Rightarrow> client" where
  "new_client api_keys = \<lparr>configs = PROVIDER_CONFIGS, apiKeys = api_keys, rateLimits = new_tracker\<rparr>"

text \<open>\<^verbatim>\<open>if (!apiKey)\<close>: a missing key and the empty string both throw.\<close>

definition has_api_key :: "client \<Rightarrow> string \<Rightarrow> bool" where
  "has_api_key c provider =
     (case apiKeys c provider of None \<Rightarrow> False | Some k \<Rightarrow> k \<noteq> [])"

text \<open>
  The pause before the request, in milliseconds: \<^verbatim>\<open>setTimeout\<close> is awaited only
  when \<^verbatim>\<open>shouldWait\<close> holds and \<^verbatim>\<open>wait > 0\<close>.
\<close>

definition request_delay :: "(rat \<Rightarrow> rat) \<Rightarrow> client \<Rightarrow> string \<Rightarrow> int \<Rightarrow> jsnum" where
  "request_delay rnd c provider now =
     (if shouldWait (rateLimits c) provider
      then (let wait = waitTime rnd (rateLimits c) provider now
            in if js_gt wait (Num 0) then wait else Num 0)
      else Num 0)"

definition rate_headers :: "'j http_response \<Rightarrow> jsnum \<times> jsnum \<times> jsnum" where
  "rate_headers r =
     (js_parseInt (or_default (headers_get r ''X-RateLimit-Limit'') ''100''),
      js_parseInt (or_default (headers_get r ''X-RateLimit-Remaining'') ''100''),
      js_parseInt (or_default (headers_get r ''X-RateLimit-Reset'') ''60''))"

text \<open>
  \<^verbatim>\<open>_directRequest\<close> from the first check to the return. The result is the value the
  promise settles to (\<open>Inl\<close> for a thrown error) and the client with its tracker as the
  call leaves it. \<open>now\<close> is \<^verbatim>\<open>Date.now()\<close> when the response is handled. Building the
  URL and the request headers does not influence what follows and is left out.
\<close>

definition directRequest ::
  "client \<Rightarrow> string \<Rightarrow> 'j fetch_outcome \<Rightarrow> int \<Rightarrow> (js_error + 'j) \<times> client" where
  "directRequest c provider outcome now =
     (if configs c provider = None then (Inl (Error (''Unknown provider: '' @ provider)), c)
      else if \<not> has_api_key c provider then (Inl (Error (''No API key for '' @ provider)), c)
      else (case outcome of
              Rejected e \<Rightarrow> (Inl e, c)
            | Response r \<Rightarrow>
                (let c' = c\<lparr>rateLimits := update (rateLimits c) provider (rate_headers r) now\<rparr>
                 in if status r = 429 then (Inl (Error ''Rate limit exceeded''), c')
                    else if \<not> ok r
                      then (Inl (Error (''Request failed: '' @ string_of_nat (status r))), c')
                    else (case json r of
                            None \<Rightarrow> (Inl (Error ''Unexpected end of JSON input''), c')
                          | Some j \<Rightarrow> (Inr j, c')))))"

text \<open>A client's life as far as the tracker is concerned: a sequence of direct requests.\<close>

fun requests :: "client \<Rightarrow> (string \<times> 'j fetch_outcome \<times> int) list \<Rightarrow> client" where
  "requests c [] = c"
| "requests c ((provider, outcome, now) # rest) =
     requests (snd (directRequest c provider outcome now)) rest"

text \<open>A header is missing when \<^verbatim>\<open>get\<close> yields \<^verbatim>\<open>null\<close> or the empty string.\<close>

definition header_missing :: "'j http_response \<Rightarrow> string \<Rightarrow> bool" where
  "header_missing r name \<longleftrightarrow> headers_get r name = None \<or> headers_get r name = Some []"

text \<open>
  A tracker is quiet for a provider when it holds no record for it, or a record whose
  remaining count is 100.
\<close>

definition quiet :: "tracker \<Rightarrow> string \<Rightarrow> bool" where
  "quiet limits p \<longleftrightarrow> (case limits p of None \<Rightarrow> True | Some info \<Rightarrow> remaining info = Num 100)"

text \<open>Three responses used as concrete inputs: one without any header, one whose reset
  header is an HTTP date, one that carries the three headers.\<close>

definition bare_response :: "nat \<Rightarrow> unit http_response" where
  "bare_response st = \<lparr>status = st, headers_get = (\<lambda>name. None), json = Some ()\<rparr>"

definition dated_response :: "unit http_response" where
  "dated_response =
     \<lparr>status = 200,
      headers_get = (\<lambda>name. if name = ''X-RateLimit-Remaining'' then Some ''0''
                           else if name = ''X-RateLimit-Reset'' then Some ''Mon, 02 Nov 2026 08:00:00 GMT''
                           else None),
      json = Some ()\<rparr>"

definition limited_response :: "nat \<Rightarrow> unit http_response" where
  "limited_response st =
     \<lparr>status = st,
      headers_get = (\<lambda>name. if name = ''X-RateLimit-Limit'' then Some ''200''
                           else if name = ''X-RateLimit-Remaining'' then Some ''1''
                           else if name = ''X-RateLimit-Reset'' then Some ''30''
                           else None),
      json = Some ()\<rparr>"

section \<open>Ranking: getMatchScore (src/stagvault/static/web/app.js)\<close>

text \<open>
  An index item as the search code reads it: \<^verbatim>\<open>id\<close>, name \<^verbatim>\<open>n\<close>, source \<^verbatim>\<open>s\<close>,
  optional tags \<^verbatim>\<open>t\<close>, optional license \<^verbatim>\<open>l\<close>, and the \<^verbatim>\<open>_apiItem\<close> mark of a
  provider result. The fields carry the prefix \<open>item_\<close>.
\<close>

record item =
  item_id :: string
  item_n :: string
  item_s :: string
  item_t :: "string list option"
  item_l :: "string option"
  item_apiItem :: bool

text \<open>
  The string methods the score uses. \<^verbatim>\<open>toLowerCase\<close> is modelled on ASCII letters;
  \<^verbatim>\<open>length\<close> counts characters of the list.
\<close>

definition lower_char :: "char \<Rightarrow> char" where
  "lower_char c =
     (let k = (of_char c :: nat) in if 65 \<le> k \<and> k \<le> 90 then char_of (k + 32) else c)"

definition toLowerCase :: "string \<Rightarrow> string" where
  "toLowerCase str = map lower_char str"

definition startsWith :: "string \<Rightarrow> string \<Rightarrow> bool" where
  "startsWith str q \<longleftrightarrow> take (length q) str = q"

definition endsWith :: "string \<Rightarrow> string \<Rightarrow> bool" where
  "endsWith str q \<longleftrightarrow> length q \<le> length str \<and> drop (length str - length q) str = q"

fun str_includes :: "string \<Rightarrow> string \<Rightarrow> bool" where
  "str_includes [] q = (q = [])"
| "str_includes (c # cs) q = (startsWith (c # cs) q \<or> str_includes cs q)"

text \<open>
  \<^verbatim>\<open>getMatchScore(item, query)\<close>, statement by statement: the name chain, the tag
  chain, the length bonus. The query reaches the function already trimmed and lowercased
  by \<^verbatim>\<open>performSearch\<close>; the function itself does not change it.
\<close>

definition getMatchScore :: "item \<Rightarrow> string \<Rightarrow> int" where
  "getMatchScore item query =
     (let name = toLowerCase (item_n item);
          tags = map toLowerCase (case item_t item of None \<Rightarrow> [] | Some ts \<Rightarrow> ts);
          score = 0;
          score = (if name = query then score + 1000
                   else if startsWith name query then score + 500
                   else if str_includes name ('': '' @ query) \<or> endsWith name ('' '' @ query)
                           \<or> str_includes name ('' '' @ query @ '' '') then score + 350
                   else if str_includes name query then score + 100
                   else score);
          score = (if query \<in> set tags then score + 600
                   else if list_ex (\<lambda>t. startsWith t query) tags then score + 250
                   else if list_ex (\<lambda>t. str_includes t query) tags then score + 50
                   else score);
          score = score + max 0 (30 - int (length name))
      in score)"

text \<open>\<^verbatim>\<open>rankResults\<close>: a stable sort by descending score.\<close>

definition rankResults :: "item list \<Rightarrow> string \<Rightarrow> item list" where
  "rankResults results query = sort_key (\<lambda>a. - getMatchScore a query) results"

subsection \<open>The three components of the score\<close>

text \<open>
  The query is a delimited word of the name when it is preceded by a colon and a space,
  or preceded by a space and ends the name, or stands between two spaces.
\<close>

definition delimited_word :: "string \<Rightarrow> string \<Rightarrow> bool" where
  "delimited_word name q \<longleftrightarrow>
     (\<exists>a b. name = a @ '': '' @ q @ b) \<or> (\<exists>a. name = a @ '' '' @ q)
     \<or> (\<exists>a b. name = a @ '' '' @ q @ '' '' @ b)"

definition name_component :: "string \<Rightarrow> string \<Rightarrow> int" where
  "name_component name q =
     (if name = q then 1000
      else if (\<exists>r. name = q @ r) then 500
      else if delimited_word name q then 350
      else if (\<exists>a b. name = a @ q @ b) then 100
      else 0)"

definition tag_component :: "string list \<Rightarrow> string \<Rightarrow> int" where
  "tag_component tags q =
     (if (\<exists>t \<in> set tags. t = q) then 600
      else if (\<exists>t \<in> set tags. \<exists>r. t = q @ r) then 250
      else if (\<exists>t \<in> set tags. \<exists>a b. t = a @ q @ b) then 50
      else 0)"

definition length_bonus :: "string \<Rightarrow> int" where
  "length_bonus name = max 0 (30 - int (length name))"

definition lowered_tags :: "item \<Rightarrow> string list" where
  "lowered_tags item = map toLowerCase (case item_t item of None \<Rightarrow> [] | Some ts \<Rightarrow> ts)"

subsection \<open>The name component as the specification words it\<close>

text \<open>
  The specification words the third tier as: the query appears as a delimited word
  inside the name (preceded by a colon and a space or by a space, or at the end). Read
  as a list of sufficient conditions, this is \<open>preceded_or_final\<close>: the query occurs after
  a colon and a space, or occurs after a space, or ends the name. Read as a word with a
  boundary on each side, it is \<open>delimited_both_sides\<close>: the query occurs after a colon
  and a space or after a space, and is followed by a space or by the end of the name.
  \<open>spec_score\<close> is the score with the third tier decided by either reading.
\<close>

definition preceded_or_final :: "string \<Rightarrow> string \<Rightarrow> bool" where
  "preceded_or_final name q \<longleftrightarrow>
     str_includes name ('': '' @ q) \<or> str_includes name ('' '' @ q) \<or> endsWith name q"

definition delimited_both_sides :: "string \<Rightarrow> string \<Rightarrow> bool" where
  "delimited_both_sides name q \<longleftrightarrow>
     str_includes name ('': '' @ q @ '' '') \<or> endsWith name ('': '' @ q)
     \<or> str_includes name ('' '' @ q @ '' '') \<or> endsWith name ('' '' @ q)"

definition spec_score :: "(string \<Rightarrow> string \<Rightarrow> bool) \<Rightarrow> item \<Rightarrow> string \<Rightarrow> int" where
  "spec_score delimited item q =
     (let name = toLowerCase (item_n item);
          tags = map toLowerCase (case item_t item of None \<Rightarrow> [] | Some ts \<Rightarrow> ts)
      in (if name = q then 1000
          else if startsWith name q then 500
          else if delimited name q then 350
          else if str_includes name q then 100
          else 0)
         + (if list_ex (\<lambda>t. t = q) tags then 600
            else if list_ex (\<lambda>t. startsWith t q) tags then 250
            else if list_ex (\<lambda>t. str_includes t q) tags then 50
            else 0)
         + max 0 (30 - int (length name)))"

text \<open>The items of the specification's two ranking tests, and two more names.\<close>

definition flag_us :: item where
  "flag_us = \<lparr>item_id = ''1'', item_n = ''flag: United States'', item_s = ''twemoji'',
              item_t = Some [''us''], item_l = None, item_apiItem = False\<rparr>"

definition user_icon :: item where
  "user_icon = \<lparr>item_id = ''2'', item_n = ''user'', item_s = ''feather'',
                item_t = Some [], item_l = None, item_apiItem = False\<rparr>"

definition new_user :: item where
  "new_user = \<lparr>item_id = ''3'', item_n = ''New User'', item_s = ''feather'',
               item_t = None, item_l = None, item_apiItem = False\<rparr>"

definition flag_usa :: item where
  "flag_usa = \<lparr>item_id = ''4'', item_n = ''Flag: USA'', item_s = ''twemoji'',
               item_t = None, item_l = None, item_apiItem = False\<rparr>"

section \<open>ProviderClient._cacheKey (src/static/js/stagvault.js)\<close>

text \<open>
  The values a request parameter takes: \<^verbatim>\<open>null\<close>, \<^verbatim>\<open>undefined\<close>, a string, an
  integer (page numbers, sizes, ids) or a boolean. \<open>js_to_string\<close> is what a template
  literal writes for them.
\<close>

datatype jsval = JNull | JUndefined | JStr string | JInt int | JBool bool

fun js_to_string :: "jsval \<Rightarrow> string" where
  "js_to_string JNull = ''null''"
| "js_to_string JUndefined = ''undefined''"
| "js_to_string (JStr str) = str"
| "js_to_string (JInt i) = string_of_int i"
| "js_to_string (JBool b) = (if b then ''true'' else ''false'')"

text \<open>\<^verbatim>\<open>v != null\<close> is false for \<^verbatim>\<open>null\<close> and \<^verbatim>\<open>undefined\<close> only.\<close>

fun not_nullish :: "jsval \<Rightarrow> bool" where
  "not_nullish JNull = False"
| "not_nullish JUndefined = False"
| "not_nullish _ = True"

text \<open>
  \<^verbatim>\<open>Array.prototype.sort\<close> with a comparator is stable. It is modelled by the stable
  insertion sort: an element is placed before the first element it does not follow.
\<close>

fun insert_by :: "('a \<Rightarrow> 'a \<Rightarrow> int) \<Rightarrow> 'a \<Rightarrow> 'a list \<Rightarrow> 'a list" where
  "insert_by cmp x [] = [x]"
| "insert_by cmp x (y # ys) = (if cmp x y \<le> 0 then x # y # ys else y # insert_by cmp x ys)"

fun js_sort :: "('a \<Rightarrow> 'a \<Rightarrow> int) \<Rightarrow> 'a list \<Rightarrow> 'a list" where
  "js_sort cmp [] = []"
| "js_sort cmp (x # xs) = insert_by cmp x (js_sort cmp xs)"

fun join :: "string \<Rightarrow> string list \<Rightarrow> string" where
  "join sep [] = []"
| "join sep [x] = x"
| "join sep (x # y # zs) = x @ sep @ join sep (y # zs)"

text \<open>
  \<^verbatim>\<open>_cacheKey(provider, method, params)\<close>. The object \<open>params\<close> is the list of its
  entries in the order \<^verbatim>\<open>Object.entries\<close> gives them; its keys are distinct. The
  comparison \<^verbatim>\<open>a.localeCompare(b)\<close> belongs to the host and its locale, so it is the
  parameter \<open>localeCompare\<close>.
\<close>

definition cacheKey ::
  "(string \<Rightarrow> string \<Rightarrow> int) \<Rightarrow> string \<Rightarrow> string \<Rightarrow> (string \<times> jsval) list \<Rightarrow> string" where
  "cacheKey localeCompare provider method params =
     (let paramStr =
        join ''&''
          (map (\<lambda>(k, v). k @ ''='' @ js_to_string v)
            (js_sort (\<lambda>(a, _) (b, _). localeCompare a b)
              (filter (\<lambda>(_, v). not_nullish v) params)))
      in provider @ '':'' @ method @ '':'' @ paramStr)"

text \<open>
  What is asked of the comparison on a set of keys: it is a linear order there, and two
  different keys never compare as equal.
\<close>

definition linear_on :: "(string \<Rightarrow> string \<Rightarrow> int) \<Rightarrow> string set \<Rightarrow> bool" where
  "linear_on cmp K \<longleftrightarrow>
     (\<forall>a \<in> K. \<forall>b \<in> K. (cmp a b = 0 \<longleftrightarrow> a = b) \<and> (cmp a b < 0 \<longleftrightarrow> 0 < cmp b a))
     \<and> (\<forall>a \<in> K. \<forall>b \<in> K. \<forall>c \<in> K. cmp a b < 0 \<and> cmp b c < 0 \<longrightarrow> cmp a c < 0)"

text \<open>A comparison by character codes, used to run the function on concrete keys.\<close>

fun code_compare :: "string \<Rightarrow> string \<Rightarrow> int" where
  "code_compare [] [] = 0"
| "code_compare [] (y # ys) = - 1"
| "code_compare (x # xs) [] = 1"
| "code_compare (x # xs) (y # ys) =
     (if (of_char x :: nat) < of_char y then - 1
      else if (of_char y :: nat) < of_char x then 1
      else code_compare xs ys)"

text \<open>
  A comparison in the manner of a collation that gives no weight to control characters,
  as \<^verbatim>\<open>'a'.localeCompare('a\u0001')\<close> is 0 on the host: the keys are compared by
  character codes once their control characters are left out.
\<close>

definition ignorable :: "char \<Rightarrow> bool" where
  "ignorable c \<longleftrightarrow> (of_char c :: nat) < 32"

definition collation_compare :: "string \<Rightarrow> string \<Rightarrow> int" where
  "collation_compare a b =
     code_compare (filter (\<lambda>c. \<not> ignorable c) a) (filter (\<lambda>c. \<not> ignorable c) b)"

text \<open>Entries ordered strictly by key.\<close>

definition key_lt :: "(string \<Rightarrow> string \<Rightarrow> int) \<Rightarrow> string \<times> jsval \<Rightarrow> string \<times> jsval \<Rightarrow> bool" where
  "key_lt cmp e1 e2 \<longleftrightarrow> cmp (fst e1) (fst e2) < 0"

section \<open>ProviderCache (src/static/js/stagvault.js)\<close>

text \<open>
  The cache keeps two kinds of items in the storage object: one item per cache key,
  under \<^verbatim>\<open>prefix + key\<close>, holding the JSON text of \<^verbatim>\<open>{ value, expires, created }\<close>,
  and one item under \<^verbatim>\<open>prefix + '_index'\<close> holding the JSON text of
  \<^verbatim>\<open>{ keys, timestamps }\<close>. The model keeps them apart: \<open>entries\<close> maps a cache key to
  its item, \<open>index_slot\<close> is the index item. A cache key is never the string
  \<^verbatim>\<open>_index\<close> (the keys of \<^verbatim>\<open>_cacheKey\<close> contain two colons), and the JSON round trip of
  a value is the identity.

  An item under a cache key is \<open>Corrupt\<close> when \<^verbatim>\<open>get\<close> cannot take it apart: the empty
  string, text that \<^verbatim>\<open>JSON.parse\<close> rejects, or the text \<^verbatim>\<open>null\<close>. Any other item is an
  \<open>Entry\<close>: \<open>entry_value\<close> is its \<^verbatim>\<open>value\<close> property and \<open>entry_expires\<close> is the number
  that \<^verbatim>\<open>Date.now() > expires\<close> compares with, which is \<open>NaN\<close> when the property is
  missing or is not numeric. The entries \<^verbatim>\<open>set\<close> writes have a numeric \<open>entry_expires\<close>.
\<close>

record 'v cache_entry =
  entry_value :: 'v
  entry_expires :: jsnum
  entry_created :: int

datatype 'v slot = Entry "'v cache_entry" | Corrupt

record index =
  keys :: "string list"
  timestamps :: "string \<rightharpoonup> int"

text \<open>
  The index item is missing or empty (\<open>NoIndex\<close>), text that \<^verbatim>\<open>JSON.parse\<close> rejects
  (\<open>CorruptIndex\<close>), the text of an index (\<open>StoredIndex\<close>), or text that parses to
  something else with neither a \<^verbatim>\<open>keys\<close> nor a \<^verbatim>\<open>timestamps\<close> property, such as
  \<^verbatim>\<open>null\<close>, \<^verbatim>\<open>123\<close> or \<^verbatim>\<open>{}\<close> (\<open>MalformedIndex\<close>). Items that parse to an object with
  only one of the two properties are outside the model.
\<close>

datatype index_slot = NoIndex | CorruptIndex | StoredIndex index | MalformedIndex

text \<open>
  \<^verbatim>\<open>setItem\<close> throws when the storage is full. Whether a write throws is decided by
  the environment: \<open>fails\<close> lists the outcome of the coming writes (\<open>True\<close> for a throw),
  and once the list is used up every write succeeds. \<^verbatim>\<open>_setIndex\<close> answers a failed
  write by calling \<^verbatim>\<open>_evict\<close>, which calls \<^verbatim>\<open>_setIndex\<close> again, each call inside the
  previous one; \<open>stack_room\<close> is the number of times the call stack of the host lets
  \<^verbatim>\<open>_setIndex\<close> do so when a method of the cache is called. One more and the host throws
  a \<^verbatim>\<open>RangeError\<close>.
\<close>

record 'v storage =
  entries :: "string \<rightharpoonup> 'v slot"
  index_slot :: index_slot
  fails :: "bool list"
  stack_room :: nat

record 'v provider_cache =
  maxSize :: nat
  defaultTTL :: int
  storage :: "'v storage option"

text \<open>The constructor: \<^verbatim>\<open>options.maxSize || 500\<close>, \<^verbatim>\<open>options.defaultTTL || 86400000\<close>.\<close>

definition new_cache :: "nat option \<Rightarrow> int option \<Rightarrow> 'v storage option \<Rightarrow> 'v provider_cache" where
  "new_cache optMaxSize optTTL st =
     \<lparr>maxSize = (case optMaxSize of None \<Rightarrow> 500 | Some k \<Rightarrow> if k = 0 then 500 else k),
      defaultTTL = (case optTTL of None \<Rightarrow> 86400000 | Some d \<Rightarrow> if d = 0 then 86400000 else d),
      storage = st\<rparr>"

definition empty_storage :: "'v storage" where
  "empty_storage = \<lparr>entries = Map.empty, index_slot = NoIndex, fails = [], stack_room = 1000\<rparr>"

definition empty_index :: index where
  "empty_index = \<lparr>keys = [], timestamps = Map.empty\<rparr>"

text \<open>
  \<^verbatim>\<open>_getIndex\<close>: a fresh copy of the stored index, or the empty index when the item is
  missing or does not parse. \<open>None\<close> stands for the value a malformed item parses to:
  reading \<^verbatim>\<open>index.keys.length\<close> or writing \<^verbatim>\<open>index.timestamps[key]\<close> on it throws a
  \<^verbatim>\<open>TypeError\<close>.
\<close>

definition getIndex :: "'v storage \<Rightarrow> index option" where
  "getIndex st =
     (case index_slot st of
        NoIndex \<Rightarrow> Some empty_index
      | CorruptIndex \<Rightarrow> Some empty_index
      | StoredIndex i \<Rightarrow> Some i
      | MalformedIndex \<Rightarrow> None)"

definition index_type_error :: js_error where
  "index_type_error = TypeError ''Cannot read properties of undefined''"

definition stack_overflow :: js_error where
  "stack_overflow = RangeError ''Maximum call stack size exceeded''"

text \<open>One call of \<^verbatim>\<open>setItem\<close>: whether it throws, and the storage with that outcome used up.\<close>

definition next_write :: "'v storage \<Rightarrow> bool \<times> 'v storage" where
  "next_write st = (case fails st of [] \<Rightarrow> (False, st) | f # fs \<Rightarrow> (f, st\<lparr>fails := fs\<rparr>))"

text \<open>\<^verbatim>\<open>index.timestamps[a] || 0\<close>.\<close>

definition ts_or_0 :: "(string \<rightharpoonup> int) \<Rightarrow> string \<Rightarrow> int" where
  "ts_or_0 ts a = (case ts a of None \<Rightarrow> 0 | Some t \<Rightarrow> t)"

text \<open>
  The loop of \<^verbatim>\<open>_evict\<close>. \<^verbatim>\<open>index.keys.sort(...)\<close> sorts the array in place and returns
  that same array, so \<^verbatim>\<open>sorted\<close> and \<^verbatim>\<open>index.keys\<close> are one array: the loop reads
  position \<open>i\<close> of the list it is shortening. \<open>remove1\<close> is \<^verbatim>\<open>indexOf\<close> followed by
  \<^verbatim>\<open>splice(idx, 1)\<close>.
\<close>

function evict_loop ::
  "nat \<Rightarrow> nat \<Rightarrow> string list \<Rightarrow> (string \<rightharpoonup> int) \<Rightarrow> (string \<rightharpoonup> 'v slot)
   \<Rightarrow> string list \<times> (string \<rightharpoonup> int) \<times> (string \<rightharpoonup> 'v slot)" where
  "evict_loop i count ks ts ents =
     (if i < count \<and> i < length ks
      then (let key = ks ! i
            in evict_loop (i + 1) count (remove1 key ks) (ts(key := None)) (ents(key := None)))
      else (ks, ts, ents))"
  by pat_completeness auto
termination
  by (relation "measure (\<lambda>(i, count, ks, ts, ents). count - i)") auto

declare evict_loop.simps [simp del]

text \<open>
  \<^verbatim>\<open>_setIndex\<close> and \<^verbatim>\<open>_evict\<close> call each other: a failed write of the index evicts
  \<^verbatim>\<open>Math.floor(maxSize / 2)\<close> keys, and \<^verbatim>\<open>_evict\<close> ends with \<^verbatim>\<open>_setIndex\<close>. The first
  argument is \<^verbatim>\<open>this.maxSize\<close>, the second the number of times \<^verbatim>\<open>_setIndex\<close> can still
  call \<^verbatim>\<open>_evict\<close> before the stack is exhausted. The result is the error the call throws,
  if any, and the storage as the call leaves it.
\<close>

function setIndex :: "nat \<Rightarrow> nat \<Rightarrow> 'v storage \<Rightarrow> index \<Rightarrow> js_error option \<times> 'v storage"
  and evict :: "nat \<Rightarrow> nat \<Rightarrow> 'v storage \<Rightarrow> nat \<Rightarrow> js_error option \<times> 'v storage" where
  "setIndex m d st idx =
     (case fails st of
        [] \<Rightarrow> (None, st\<lparr>index_slot := StoredIndex idx\<rparr>)
      | f # fs \<Rightarrow>
          if f then (if d = 0 then (Some stack_overflow, st\<lparr>fails := fs\<rparr>)
                     else evict m (d - 1) (st\<lparr>fails := fs\<rparr>) (m div 2))
          else (None, st\<lparr>fails := fs, index_slot := StoredIndex idx\<rparr>))"
| "evict m d st count =
     (case getIndex st of
        None \<Rightarrow> (Some index_type_error, st)
      | Some index \<Rightarrow>
          (let sorted = sort_key (ts_or_0 (timestamps index)) (keys index);
               r = evict_loop 0 count sorted (timestamps index) (entries st)
           in setIndex m d (st\<lparr>entries := snd (snd r)\<rparr>) \<lparr>keys = fst r, timestamps = fst (snd r)\<rparr>))"
  by pat_completeness auto
termination
  by (relation "measure (\<lambda>x. case x of Inl (m, d, st, idx) \<Rightarrow> 2 * d
                                    | Inr (m, d, st, count) \<Rightarrow> 2 * d + 1)") auto

declare setIndex.simps [simp del] evict.simps [simp del]

text \<open>
  \<^verbatim>\<open>delete(key)\<close>: the error it throws, if any, and the cache as the call leaves it.
\<close>

definition delete_st :: "nat \<Rightarrow> 'v storage \<Rightarrow> string \<Rightarrow> js_error option \<times> 'v storage" where
  "delete_st m st key =
     (let st1 = st\<lparr>entries := (entries st)(key := None)\<rparr>
      in case getIndex st1 of
           None \<Rightarrow> (Some index_type_error, st1)
         | Some index \<Rightarrow>
             if key \<in> set (keys index)
             then setIndex m (stack_room st1) st1
                    \<lparr>keys = remove1 key (keys index), timestamps = (timestamps index)(key := None)\<rparr>
             else (None, st1))"

definition cache_delete_call ::
  "'v provider_cache \<Rightarrow> string \<Rightarrow> js_error option \<times> 'v provider_cache" where
  "cache_delete_call c key =
     (case storage c of
        None \<Rightarrow> (None, c)
      | Some st \<Rightarrow> (let r = delete_st (maxSize c) st key in (fst r, c\<lparr>storage := Some (snd r)\<rparr>)))"

text \<open>The cache as \<^verbatim>\<open>delete(key)\<close> leaves it, whether it returns or throws.\<close>

definition cache_delete :: "'v provider_cache \<Rightarrow> string \<Rightarrow> 'v provider_cache" where
  "cache_delete c key = snd (cache_delete_call c key)"

text \<open>
  \<^verbatim>\<open>get(key)\<close>: the returned value (\<open>None\<close> for \<^verbatim>\<open>null\<close>) and the cache afterwards.
  \<open>now\<close> is \<^verbatim>\<open>Date.now()\<close>. Whatever is thrown after the item is read, by
  \<^verbatim>\<open>delete\<close>, by the use of the index or by \<^verbatim>\<open>_setIndex\<close>, is caught, and \<^verbatim>\<open>get\<close> then
  returns \<^verbatim>\<open>null\<close>.
\<close>

definition cache_get :: "'v provider_cache \<Rightarrow> string \<Rightarrow> int \<Rightarrow> 'v option \<times> 'v provider_cache" where
  "cache_get c key now =
     (case storage c of
        None \<Rightarrow> (None, c)
      | Some st \<Rightarrow>
          (case entries st key of
             None \<Rightarrow> (None, c)
           | Some Corrupt \<Rightarrow> (None, c)
           | Some (Entry e) \<Rightarrow>
               if js_gt (Num (of_int now)) (entry_expires e) then (None, cache_delete c key)
               else (case getIndex st of
                       None \<Rightarrow> (None, c)
                     | Some index \<Rightarrow>
                         (let index' = index\<lparr>timestamps := (timestamps index)(key \<mapsto> now)\<rparr>;
                              r = setIndex (maxSize c) (stack_room st) st index'
                          in (if fst r = None then Some (entry_value e) else None,
                              c\<lparr>storage := Some (snd r)\<rparr>)))))"

text \<open>
  The \<^verbatim>\<open>catch\<close> block of \<^verbatim>\<open>set\<close>: half the capacity is evicted and the entry is written
  once more; a second failure of that write is swallowed, an error of the eviction is
  not.
\<close>

definition set_retry ::
  "nat \<Rightarrow> 'v storage \<Rightarrow> string \<Rightarrow> 'v cache_entry \<Rightarrow> js_error option \<times> 'v storage" where
  "set_retry m st key data =
     (let r = evict m (stack_room st) st (m div 2)
      in if fst r \<noteq> None then r
         else (let w = next_write (snd r)
               in if fst w then (None, snd w)
                  else (None, (snd w)\<lparr>entries := (entries (snd w))(key \<mapsto> Entry data)\<rparr>)))"

text \<open>
  \<^verbatim>\<open>set(key, value, ttl)\<close>: the error it throws, if any, and the cache as the call leaves
  it. The local \<^verbatim>\<open>index\<close> is read once, before the eviction, and it is this copy that is
  extended and written back after the entry is stored. The first eviction is outside
  the \<^verbatim>\<open>try\<close> block; what \<^verbatim>\<open>setItem\<close> or \<^verbatim>\<open>_setIndex\<close> throw inside it leads to the
  \<^verbatim>\<open>catch\<close> block.
\<close>

definition cache_set_call ::
  "'v provider_cache \<Rightarrow> string \<Rightarrow> 'v \<Rightarrow> int \<Rightarrow> int \<Rightarrow> js_error option \<times> 'v provider_cache" where
  "cache_set_call c key v ttl now =
     (case storage c of
        None \<Rightarrow> (None, c)
      | Some st \<Rightarrow>
          (case getIndex st of
             None \<Rightarrow> (Some index_type_error, c)
           | Some index \<Rightarrow>
               (let m = maxSize c;
                    r1 = (if length (keys index) \<ge> m \<and> key \<notin> set (keys index)
                          then evict m (stack_room st) st (m div 4) else (None, st))
                in if fst r1 \<noteq> None then (fst r1, c\<lparr>storage := Some (snd r1)\<rparr>)
                   else (let data = \<lparr>entry_value = v, entry_expires = Num (of_int (now + ttl)),
                                     entry_created = now\<rparr>;
                             w = next_write (snd r1)
                         in if fst w
                            then (let r3 = set_retry m (snd w) key data
                                  in (fst r3, c\<lparr>storage := Some (snd r3)\<rparr>))
                            else (let st3 = (snd w)\<lparr>entries := (entries (snd w))(key \<mapsto> Entry data)\<rparr>;
                                      ks = (if key \<in> set (keys index) then keys index
                                            else keys index @ [key]);
                                      index' = \<lparr>keys = ks, timestamps = (timestamps index)(key \<mapsto> now)\<rparr>;
                                      r2 = setIndex m (stack_room st3) st3 index'
                                  in if fst r2 = None then (None, c\<lparr>storage := Some (snd r2)\<rparr>)
                                     else (let r3 = set_retry m (snd r2) key data
                                           in (fst r3, c\<lparr>storage := Some (snd r3)\<rparr>)))))))"

text \<open>The cache as \<^verbatim>\<open>set(key, value, ttl)\<close> leaves it, whether it returns or throws.\<close>

definition cache_set ::
  "'v provider_cache \<Rightarrow> string \<Rightarrow> 'v \<Rightarrow> int \<Rightarrow> int \<Rightarrow> 'v provider_cache" where
  "cache_set c key v ttl now = snd (cache_set_call c key v ttl now)"

text \<open>\<^verbatim>\<open>set(key, value)\<close> with the default time to live.\<close>

definition cache_set_default :: "'v provider_cache \<Rightarrow> string \<Rightarrow> 'v \<Rightarrow> int \<Rightarrow> 'v provider_cache" where
  "cache_set_default c key v now = cache_set c key v (defaultTTL c) now"

text \<open>
  \<^verbatim>\<open>clear(providerPrefix)\<close>: \<^verbatim>\<open>null\<close> and the empty string select every key. The loop
  removes each selected key from the storage and from the local index, which is written
  once at the end.
\<close>

fun clear_loop :: "string list \<Rightarrow> index \<Rightarrow> (string \<rightharpoonup> 'v slot) \<Rightarrow> index \<times> (string \<rightharpoonup> 'v slot)" where
  "clear_loop [] index ents = (index, ents)"
| "clear_loop (key # rest) index ents =
     clear_loop rest
       (if key \<in> set (keys index)
        then \<lparr>keys = remove1 key (keys index), timestamps = (timestamps index)(key := None)\<rparr>
        else index)
       (ents(key := None))"

definition cache_clear_call ::
  "'v provider_cache \<Rightarrow> string option \<Rightarrow> js_error option \<times> 'v provider_cache" where
  "cache_clear_call c providerPrefix =
     (case storage c of
        None \<Rightarrow> (None, c)
      | Some st \<Rightarrow>
          (case getIndex st of
             None \<Rightarrow> (Some index_type_error, c)
           | Some index \<Rightarrow>
               (let keysToDelete = (case providerPrefix of
                                      None \<Rightarrow> keys index
                                    | Some p \<Rightarrow> if p = [] then keys index
                                                else filter (\<lambda>k. startsWith k p) (keys index));
                    r = clear_loop keysToDelete index (entries st);
                    r' = setIndex (maxSize c) (stack_room st) (st\<lparr>entries := snd r\<rparr>) (fst r)
                in (fst r', c\<lparr>storage := Some (snd r')\<rparr>))))"

definition cache_clear :: "'v provider_cache \<Rightarrow> string option \<Rightarrow> 'v provider_cache" where
  "cache_clear c providerPrefix = snd (cache_clear_call c providerPrefix)"

text \<open>\<^verbatim>\<open>stats()\<close>: count, capacity and keys of the stored index, or the error thrown.\<close>

definition stats :: "'v provider_cache \<Rightarrow> js_error + nat \<times> nat \<times> string list" where
  "stats c =
     (case (case storage c of None \<Rightarrow> Some empty_index | Some st \<Rightarrow> getIndex st) of
        None \<Rightarrow> Inl index_type_error
      | Some index \<Rightarrow> Inr (length (keys index), maxSize c, keys index))"

text \<open>What the storage holds for a cache, or nothing when there is no storage.\<close>

definition stored :: "'v provider_cache \<Rightarrow> string \<Rightarrow> 'v slot option" where
  "stored c key = (case storage c of None \<Rightarrow> None | Some st \<Rightarrow> entries st key)"

text \<open>The keys the stored index lists; none when the item is not an index.\<close>

definition index_keys :: "'v provider_cache \<Rightarrow> string list" where
  "index_keys c =
     (case storage c of
        None \<Rightarrow> []
      | Some st \<Rightarrow> (case getIndex st of None \<Rightarrow> [] | Some index \<Rightarrow> keys index))"

text \<open>A run of \<^verbatim>\<open>set\<close> calls with the default time to live, one per millisecond.\<close>

fun set_all :: "'v provider_cache \<Rightarrow> (string \<times> 'v) list \<Rightarrow> int \<Rightarrow> 'v provider_cache" where
  "set_all c [] now = c"
| "set_all c ((key, v) # rest) now = set_all (cache_set_default c key v now) rest (now + 1)"





subsection \<open>Concrete caches\<close>


definition cache4 :: "nat provider_cache" where
  "cache4 = new_cache (Some 4) None (Some empty_storage)"

definition cache8 :: "nat provider_cache" where
  "cache8 = new_cache (Some 8) None (Some empty_storage)"

definition six_keys :: "(string \<times> nat) list" where
  "six_keys = [(''a'', 1), (''b'', 2), (''c'', 3), (''d'', 4), (''e'', 5), (''f'', 6)]"

definition nine_keys :: "(string \<times> nat) list" where
  "nine_keys = [(''k1'', 1), (''k2'', 2), (''k3'', 3), (''k4'', 4), (''k5'', 5), (''k6'', 6),
                (''k7'', 7), (''k8'', 8), (''k9'', 9)]"

text \<open>The same cache with the outcomes of its coming writes replaced.\<close>

definition with_fails :: "'v provider_cache \<Rightarrow> bool list \<Rightarrow> 'v provider_cache" where
  "with_fails c fs =
     (case storage c of None \<Rightarrow> c | Some st \<Rightarrow> c\<lparr>storage := Some (st\<lparr>fails := fs\<rparr>)\<rparr>)"

definition is_present :: "'v slot option \<Rightarrow> bool" where
  "is_present x \<longleftrightarrow> x \<noteq> None"








section \<open>The search coordinator: performSearch (src/stagvault/static/web/app.js)\<close>

text \<open>
  What the page shows. \<^verbatim>\<open>displayResults(results, query, apiPending)\<close> writes the
  statistics line and the result grid from its three arguments, so the view it leaves is
  recorded as \<open>Shown\<close> with these arguments (\<open>None\<close> for the \<^verbatim>\<open>null\<close> query of the
  sample view).
\<close>

datatype view =
  Blank
| Loading
| Shown "item list" "string option" bool
| EmptyState
| ErrorView string

text \<open>
  An \<^verbatim>\<open>async\<close> function suspended at an \<^verbatim>\<open>await\<close> is a continuation that the event
  loop resumes later with the awaited result. Each continuation of \<^verbatim>\<open>performSearch\<close>
  carries the constants its closure captured: \<^verbatim>\<open>searchId\<close>, \<^verbatim>\<open>query\<close> and, after
  the local search, \<^verbatim>\<open>staticResults\<close>.
\<close>

datatype continuation =
  AwaitStatic nat string
| AwaitApi nat string "item list"
| AwaitSamples

record source_info =
  source_id :: string
  source_license :: "string option"

text \<open>
  The fields of the \<^verbatim>\<open>StagVault\<close> object that a search reads or writes, and two tables
  of the event loop: the pending timeouts of \<^verbatim>\<open>setTimeout\<close> by handle, each with the
  constants of its callback, and the suspended continuations. \<open>enabledProviders\<close> is the
  value of \<^verbatim>\<open>getEnabledProviders()\<close>; \<open>apiSearches\<close> logs the queries for which
  \<^verbatim>\<open>searchApiProviders\<close> was called.
\<close>

record app =
  currentSearchId :: nat
  currentResults :: "item list"
  container :: view
  apiSearchDebounceTimer :: "nat option"
  discoveredLicenses :: "string list"
  excludedSources :: "string list"
  excludedLicenses :: "string list"
  sources :: "source_info list"
  enabledProviders :: "string list"
  apiSearches :: "string list"
  timers :: "nat \<rightharpoonup> nat \<times> string \<times> item list"
  next_timer :: nat
  awaiting :: "nat \<rightharpoonup> continuation"
  next_continuation :: nat

text \<open>
  The page once \<^verbatim>\<open>init()\<close> has set up the event listeners and called
  \<^verbatim>\<open>showInitialState()\<close>: no search has been made, and the first
  \<^verbatim>\<open>loadAndDisplaySamples\<close> is suspended at the fetch of a prefix file, as continuation 0.
\<close>

definition new_app :: "source_info list \<Rightarrow> string list \<Rightarrow> app" where
  "new_app srcs providers =
     \<lparr>currentSearchId = 0, currentResults = [], container = Blank,
      apiSearchDebounceTimer = None, discoveredLicenses = [],
      excludedSources = [], excludedLicenses = [], sources = srcs,
      enabledProviders = providers, apiSearches = [],
      timers = Map.empty, next_timer = 1, awaiting = [0 \<mapsto> AwaitSamples],
      next_continuation = 1\<rparr>"

text \<open>\<^verbatim>\<open>item.l || this.sources.find(s => s.id === item.s)?.license\<close>.\<close>

definition truthy :: "string option \<Rightarrow> string option" where
  "truthy x = (case x of None \<Rightarrow> None | Some str \<Rightarrow> if str = [] then None else Some str)"

definition itemLicense :: "app \<Rightarrow> item \<Rightarrow> string option" where
  "itemLicense a it =
     (case truthy (item_l it) of
        Some lic \<Rightarrow> Some lic
      | None \<Rightarrow> (case find (\<lambda>src. source_id src = item_s it) (sources a) of
                   None \<Rightarrow> None
                 | Some src \<Rightarrow> source_license src))"

definition applyFilters :: "app \<Rightarrow> item list \<Rightarrow> item list" where
  "applyFilters a items =
     filter (\<lambda>it.
        if item_s it \<in> set (excludedSources a) then False
        else if excludedLicenses a \<noteq> [] \<and>
                (case itemLicense a it of None \<Rightarrow> False | Some lic \<Rightarrow> lic \<in> set (excludedLicenses a))
             then False
        else True) items"

text \<open>\<^verbatim>\<open>refreshLicensesIfNeeded\<close>: every new truthy license of the items joins the set.\<close>

fun refreshLicensesIfNeeded :: "string list \<Rightarrow> item list \<Rightarrow> string list" where
  "refreshLicensesIfNeeded found [] = found"
| "refreshLicensesIfNeeded found (it # rest) =
     refreshLicensesIfNeeded
       (case truthy (item_l it) of
          None \<Rightarrow> found
        | Some lic \<Rightarrow> if lic \<in> set found then found else found @ [lic])
       rest"

definition suspend :: "app \<Rightarrow> continuation \<Rightarrow> app" where
  "suspend a k =
     a\<lparr>awaiting := (awaiting a)(next_continuation a \<mapsto> k),
       next_continuation := next_continuation a + 1\<rparr>"

text \<open>
  \<^verbatim>\<open>performSearch()\<close> up to its first \<^verbatim>\<open>await\<close>. \<open>query\<close> is the trimmed, lowercased
  content of the search field.
\<close>

definition performSearch :: "app \<Rightarrow> string \<Rightarrow> app" where
  "performSearch a query =
     (let a1 = (case apiSearchDebounceTimer a of
                  None \<Rightarrow> a
                | Some h \<Rightarrow> a\<lparr>timers := (timers a)(h := None), apiSearchDebounceTimer := None\<rparr>)
      in if length query < 2
         then suspend (a1\<lparr>currentSearchId := currentSearchId a1 + 1\<rparr>) AwaitSamples
         else (let searchId = currentSearchId a1 + 1
               in suspend (a1\<lparr>currentSearchId := searchId, container := Loading\<rparr>)
                    (AwaitStatic searchId query)))"

text \<open>
  The continuation after \<^verbatim>\<open>await this.searchStaticIndex(query)\<close>: the awaited promise
  is fulfilled with the local results or rejected.
\<close>

definition after_static :: "app \<Rightarrow> nat \<Rightarrow> string \<Rightarrow> js_error + item list \<Rightarrow> app" where
  "after_static a searchId query res =
     (case res of
        Inl err \<Rightarrow>
          if searchId = currentSearchId a
          then a\<lparr>container := ErrorView ''Search failed. Please try again.''\<rparr>
          else a
      | Inr staticResults \<Rightarrow>
          if searchId \<noteq> currentSearchId a then a
          else (let results = rankResults staticResults query;
                    a1 = a\<lparr>currentResults := results, container := Shown results (Some query) True\<rparr>
                in if enabledProviders a1 \<noteq> []
                   then a1\<lparr>timers := (timers a1)(next_timer a1 \<mapsto> (searchId, query, staticResults)),
                           apiSearchDebounceTimer := Some (next_timer a1),
                           next_timer := next_timer a1 + 1\<rparr>
                   else a1))"

text \<open>The timer callback up to \<^verbatim>\<open>await this.searchApiProviders(query)\<close>.\<close>

definition timer_callback :: "app \<Rightarrow> nat \<Rightarrow> string \<Rightarrow> item list \<Rightarrow> app" where
  "timer_callback a searchId query staticResults =
     (if searchId \<noteq> currentSearchId a then a
      else suspend (a\<lparr>apiSearches := apiSearches a @ [query]\<rparr>)
             (AwaitApi searchId query staticResults))"

text \<open>The rest of the timer callback, after the provider search settled.\<close>

definition after_api :: "app \<Rightarrow> nat \<Rightarrow> string \<Rightarrow> item list \<Rightarrow> js_error + item list \<Rightarrow> app" where
  "after_api a searchId query staticResults res =
     (case res of
        Inl err \<Rightarrow> a
      | Inr apiResults \<Rightarrow>
          if searchId \<noteq> currentSearchId a then a
          else (let a1 = a\<lparr>discoveredLicenses := refreshLicensesIfNeeded (discoveredLicenses a) apiResults\<rparr>;
                    filteredApiResults = applyFilters a1 apiResults;
                    mergedResults = staticResults @ filteredApiResults;
                    rankedResults = rankResults mergedResults query
                in a1\<lparr>currentResults := rankedResults,
                       container := Shown rankedResults (Some query) False\<rparr>))"

text \<open>
  The end of \<^verbatim>\<open>loadAndDisplaySamples\<close>, once the prefix files it fetches have
  arrived: the samples are shown, or the empty state when there is none or loading
  failed. It runs with no generation check.
\<close>

definition after_samples :: "app \<Rightarrow> item list option \<Rightarrow> app" where
  "after_samples a res =
     (case res of
        None \<Rightarrow> a\<lparr>container := EmptyState\<rparr>
      | Some displayItems \<Rightarrow>
          if displayItems \<noteq> [] then a\<lparr>container := Shown displayItems None False\<rparr>
          else a\<lparr>container := EmptyState\<rparr>)"

text \<open>
  What the event loop can do next: run \<^verbatim>\<open>performSearch\<close> for a query, resume a
  suspended continuation with the result it awaited, or fire a pending timeout. An
  event that names no pending continuation or timeout of its kind does nothing.
\<close>

datatype event =
  Search string
| StaticDone nat "js_error + item list"
| TimerFired nat
| ApiDone nat "js_error + item list"
| SamplesDone nat "item list option"

definition resume :: "app \<Rightarrow> nat \<Rightarrow> app" where
  "resume a k = a\<lparr>awaiting := (awaiting a)(k := None)\<rparr>"

fun step :: "app \<Rightarrow> event \<Rightarrow> app" where
  "step a (Search query) = performSearch a query"
| "step a (StaticDone k res) =
     (case awaiting a k of
        Some (AwaitStatic searchId query) \<Rightarrow> after_static (resume a k) searchId query res
      | _ \<Rightarrow> a)"
| "step a (TimerFired h) =
     (case timers a h of
        Some (searchId, query, staticResults) \<Rightarrow>
          timer_callback (a\<lparr>timers := (timers a)(h := None)\<rparr>) searchId query staticResults
      | None \<Rightarrow> a)"
| "step a (ApiDone k res) =
     (case awaiting a k of
        Some (AwaitApi searchId query staticResults) \<Rightarrow>
          after_api (resume a k) searchId query staticResults res
      | _ \<Rightarrow> a)"
| "step a (SamplesDone k res) =
     (case awaiting a k of
        Some AwaitSamples \<Rightarrow> after_samples (resume a k) res
      | _ \<Rightarrow> a)"

fun run :: "app \<Rightarrow> event list \<Rightarrow> app" where
  "run a [] = a"
| "run a (ev # evs) = run (step a ev) evs"

subsection \<open>Stale continuations\<close>

text \<open>
  The generation a continuation or a timeout captured, and the events that resume one
  whose generation is not the current one.
\<close>

fun generation :: "continuation \<Rightarrow> nat option" where
  "generation (AwaitStatic searchId query) = Some searchId"
| "generation (AwaitApi searchId query staticResults) = Some searchId"
| "generation AwaitSamples = None"

fun stale :: "app \<Rightarrow> event \<Rightarrow> bool" where
  "stale a (Search query) = False"
| "stale a (StaticDone k res) =
     (case awaiting a k of
        Some (AwaitStatic searchId query) \<Rightarrow> searchId \<noteq> currentSearchId a
      | _ \<Rightarrow> False)"
| "stale a (TimerFired h) =
     (case timers a h of
        Some (searchId, query, staticResults) \<Rightarrow> searchId \<noteq> currentSearchId a
      | None \<Rightarrow> False)"
| "stale a (ApiDone k res) =
     (case awaiting a k of
        Some (AwaitApi searchId query staticResults) \<Rightarrow> searchId \<noteq> currentSearchId a
      | _ \<Rightarrow> False)"
| "stale a (SamplesDone k res) = False"

text \<open>The same run in a world where the stale continuations are never resumed.\<close>

fun run_without_stale :: "app \<Rightarrow> event list \<Rightarrow> app" where
  "run_without_stale a [] = a"
| "run_without_stale a (ev # evs) =
     (if stale a ev then run_without_stale a evs else run_without_stale (step a ev) evs)"

text \<open>The part of the state that is displayed or holds results.\<close>

definition ui :: "app \<Rightarrow> view \<times> item list \<times> string list" where
  "ui a = (container a, currentResults a, discoveredLicenses a)"

text \<open>No pending continuation or timeout carries a generation above the current one.\<close>

definition generations_bounded :: "app \<Rightarrow> bool" where
  "generations_bounded a \<longleftrightarrow>
     (\<forall>k c g. awaiting a k = Some c \<and> generation c = Some g \<longrightarrow> g \<le> currentSearchId a)
     \<and> (\<forall>h g q r. timers a h = Some (g, q, r) \<longrightarrow> g \<le> currentSearchId a)"

text \<open>
  Two states that differ at most by stale entries of the two tables: \<open>b\<close> may still hold
  continuations and timeouts of earlier generations that \<open>a\<close> has already resumed.
\<close>

definition same_but_stale :: "app \<Rightarrow> app \<Rightarrow> bool" where
  "same_but_stale a b \<longleftrightarrow>
     a = b\<lparr>awaiting := awaiting a, timers := timers a\<rparr>
     \<and> (\<forall>k. awaiting a k = awaiting b k
            \<or> (awaiting a k = None
                \<and> (\<exists>c g. awaiting b k = Some c \<and> generation c = Some g \<and> g < currentSearchId b)))
     \<and> (\<forall>h. timers a h = timers b h
            \<or> (timers a h = None
                \<and> (\<exists>g q r. timers b h = Some (g, q, r) \<and> g < currentSearchId b)))"

text \<open>
  The page shows nothing but the query \<open>q\<close>: the loading mark or the error message of a
  search, or results displayed for \<open>q\<close>.
\<close>

fun shows_only :: "view \<Rightarrow> string \<Rightarrow> bool" where
  "shows_only Loading q = True"
| "shows_only (ErrorView msg) q = True"
| "shows_only (Shown results (Some q') apiPending) q = (q' = q)"
| "shows_only (Shown results None apiPending) q = False"
| "shows_only Blank q = False"
| "shows_only EmptyState q = False"

text \<open>The events that resume a continuation or a timeout of a search with providers.\<close>

fun resumption :: "event \<Rightarrow> bool" where
  "resumption (StaticDone k res) = True"
| "resumption (TimerFired h) = True"
| "resumption (ApiDone k res) = True"
| "resumption (Search query) = False"
| "resumption (SamplesDone k res) = False"

text \<open>
  Every pending continuation and timeout of the current generation belongs to the query
  \<open>q\<close>, and the page shows only \<open>q\<close>.
\<close>

definition current_is :: "app \<Rightarrow> string \<Rightarrow> bool" where
  "current_is a q \<longleftrightarrow>
     generations_bounded a
     \<and> (\<forall>k q'. awaiting a k = Some (AwaitStatic (currentSearchId a) q') \<longrightarrow> q' = q)
     \<and> (\<forall>k q' r. awaiting a k = Some (AwaitApi (currentSearchId a) q' r) \<longrightarrow> q' = q)
     \<and> (\<forall>h q' r. timers a h = Some (currentSearchId a, q', r) \<longrightarrow> q' = q)
     \<and> shows_only (container a) q"

text \<open>Items of a run with two overlapping searches.\<close>

definition sun_icon :: item where
  "sun_icon = \<lparr>item_id = ''1'', item_n = ''sun'', item_s = ''feather'', item_t = None,
               item_l = None, item_apiItem = False\<rparr>"

definition sunset_icon :: item where
  "sunset_icon = \<lparr>item_id = ''2'', item_n = ''sunset'', item_s = ''feather'', item_t = None,
                  item_l = None, item_apiItem = False\<rparr>"

definition sunny_photo :: item where
  "sunny_photo = \<lparr>item_id = ''pexels-3'', item_n = ''Sunny beach'', item_s = ''pexels'',
                  item_t = Some [''photo'', ''pexels''], item_l = Some ''Pexels License'',
                  item_apiItem = True\<rparr>"

definition moon_photo :: item where
  "moon_photo = \<lparr>item_id = ''pexels-4'', item_n = ''Full moon'', item_s = ''pexels'',
                 item_t = Some [''photo'', ''pexels''], item_l = Some ''Pexels License'',
                 item_apiItem = True\<rparr>"

text \<open>
  The search for \<open>moon\<close> shows its local results and starts its provider search; the
  search for \<open>sun\<close> is issued; the providers answer for \<open>moon\<close> only after the local
  results for \<open>sun\<close> are on the page.
\<close>

definition overlapping_searches :: "event list" where
  "overlapping_searches =
     [Search ''moon'', StaticDone 1 (Inr []), TimerFired 1,
      Search ''sun'', StaticDone 3 (Inr [sunset_icon, sun_icon]),
      ApiDone 2 (Inr [moon_photo]),
      TimerFired 2, ApiDone 4 (Inr [sunny_photo])]"

text \<open>An item of the sample view, and a run in which a one-letter query is followed by
  two searches before its sample view is loaded.\<close>

definition heart_icon :: item where
  "heart_icon = \<lparr>item_id = ''5'', item_n = ''heart'', item_s = ''feather'', item_t = None,
                 item_l = None, item_apiItem = False\<rparr>"

definition searches_after_short_query :: "event list" where
  "searches_after_short_query =
     [Search ''a'', Search ''moon'', Search ''sun'', StaticDone 2 (Inr []),
      StaticDone 3 (Inr [sunset_icon, sun_icon])]"

text \<open>The same condition on two tables \<open>A\<close> and \<open>T\<close> that stand for those of \<open>a\<close>.\<close>

definition tables_ok :: "(nat \<rightharpoonup> continuation) \<Rightarrow> (nat \<rightharpoonup> nat \<times> string \<times> item list) \<Rightarrow> app \<Rightarrow> bool" where
  "tables_ok A T b \<longleftrightarrow>
     (\<forall>k. A k = awaiting b k
            \<or> (A k = None
                \<and> (\<exists>c g. awaiting b k = Some c \<and> generation c = Some g \<and> g < currentSearchId b)))
     \<and> (\<forall>h. T h = timers b h
            \<or> (T h = None
                \<and> (\<exists>g q r. timers b h = Some (g, q, r) \<and> g < currentSearchId b)))"

text \<open>
  Every pending continuation and timeout of a search belongs to an earlier generation,
  and the continuation \<open>k\<close> is a sample view being loaded.
\<close>

definition only_samples_pending :: "app \<Rightarrow> nat \<Rightarrow> bool" where
  "only_samples_pending a k \<longleftrightarrow>
     (\<forall>j c g. awaiting a j = Some c \<and> generation c = Some g \<longrightarrow> g < currentSearchId a)
     \<and> (\<forall>h g q r. timers a h = Some (g, q, r) \<longrightarrow> g < currentSearchId a)
     \<and> awaiting a k = Some AwaitSamples \<and> k < next_continuation a"

text \<open>The view \<^verbatim>\<open>loadAndDisplaySamples\<close> ends with.\<close>

definition samples_view :: "item list option \<Rightarrow> view" where
  "samples_view res =
     (case res of
        None \<Rightarrow> EmptyState
      | Some displayItems \<Rightarrow> if displayItems \<noteq> [] then Shown displayItems None False else EmptyState)"

section \<open>Querying several providers\<close>

text \<open>
  A promise settles to a value or to an error: \<open>Inr\<close> or \<open>Inl\<close>.
  \<^verbatim>\<open>Promise.allSettled\<close> waits for every promise and reports each outcome;
  \<^verbatim>\<open>Promise.all\<close> is rejected as soon as one promise is, and fulfilled with all the
  values otherwise.
\<close>

datatype 'a settled = Fulfilled 'a | RejectedWith js_error

definition promise_allSettled :: "(js_error + 'a) list \<Rightarrow> 'a settled list" where
  "promise_allSettled ps = map (\<lambda>p. case p of Inl e \<Rightarrow> RejectedWith e | Inr v \<Rightarrow> Fulfilled v) ps"


subsection \<open>ProviderClient.searchImages (src/static/js/stagvault.js)\<close>

text \<open>
  What \<^verbatim>\<open>_searchProviderImages\<close> returns for one provider, and the entry of one
  provider in the merged result: that value, or \<^verbatim>\<open>{ error: message, images: [] }\<close>.
\<close>

record 'i provider_result =
  pr_provider :: string
  pr_total :: nat
  pr_images :: "'i list"
  pr_cached :: bool

datatype 'i provider_entry = ProviderValue "'i provider_result" | ProviderError string

fun entry_images :: "'i provider_entry \<Rightarrow> 'i list" where
  "entry_images (ProviderValue v) = pr_images v"
| "entry_images (ProviderError msg) = []"

record 'i image_search =
  is_query :: string
  is_providers :: "string list"
  is_results :: "string \<rightharpoonup> 'i provider_entry"
  total_images :: nat
  is_cached :: bool

text \<open>\<^verbatim>\<open>reason.message\<close>.\<close>

fun message :: "js_error \<Rightarrow> string" where
  "message (Error msg) = msg"
| "message (TypeError msg) = msg"
| "message (RangeError msg) = msg"
| "message (URIError msg) = msg"

text \<open>
  The \<^verbatim>\<open>forEach\<close> over the providers and the outcomes of their promises, in order.
\<close>

fun collect ::
  "'i image_search \<Rightarrow> (string \<times> 'i provider_result settled) list \<Rightarrow> 'i image_search" where
  "collect result [] = result"
| "collect result ((p, Fulfilled v) # rest) =
     collect (result\<lparr>is_results := (is_results result)(p \<mapsto> ProviderValue v),
                     total_images := total_images result + pr_total v\<rparr>) rest"
| "collect result ((p, RejectedWith e) # rest) =
     collect (result\<lparr>is_results := (is_results result)(p \<mapsto> ProviderError (message e))\<rparr>) rest"

text \<open>
  The direct-mode branch of \<^verbatim>\<open>searchImages\<close>: \<open>call i\<close> is what the promise of the
  \<open>i\<close>-th provider settles to.
\<close>

definition searchImages_direct ::
  "string \<Rightarrow> string list \<Rightarrow> (nat \<Rightarrow> js_error + 'i provider_result) \<Rightarrow> 'i image_search" where
  "searchImages_direct query providers call =
     (let results = promise_allSettled (map call [0..<length providers]);
          result = \<lparr>is_query = query, is_providers = providers, is_results = Map.empty,
                    total_images = 0, is_cached = False\<rparr>
      in collect result (zip providers results))"

datatype mode = Backend | Direct

text \<open>The cache key of a search.\<close>

definition searchImages_key ::
  "(string \<Rightarrow> string \<Rightarrow> int) \<Rightarrow> string \<Rightarrow> string list \<Rightarrow> int \<Rightarrow> int \<Rightarrow> string \<Rightarrow> string" where
  "searchImages_key localeCompare query providers page perPage mediaType =
     cacheKey localeCompare ''multi'' ''searchImages''
       [(''q'', JStr query), (''providers'', JStr (join '','' providers)),
        (''page'', JInt page), (''perPage'', JInt perPage),
        (''mediaType'', JStr mediaType)]"

text \<open>
  \<^verbatim>\<open>searchImages\<close> as a whole: the cache is consulted first, the backend or the
  providers are queried on a miss, and the result is cached. \<open>backend\<close> is what
  \<^verbatim>\<open>_backendRequest\<close> settles to; \<open>now\<close> and \<open>later\<close> are \<^verbatim>\<open>Date.now()\<close> at the
  lookup and at the write. The call \<^verbatim>\<open>this.cache.set(cacheKey, result)\<close> is not
  guarded: what it throws rejects the promise of \<^verbatim>\<open>searchImages\<close>. The values of this
  cache are result objects, which are truthy.
\<close>

definition searchImages ::
  "mode \<Rightarrow> (string \<Rightarrow> string \<Rightarrow> int) \<Rightarrow> 'i image_search provider_cache \<Rightarrow> bool \<Rightarrow> string
   \<Rightarrow> string list \<Rightarrow> int \<Rightarrow> int \<Rightarrow> string
   \<Rightarrow> (js_error + 'i image_search) \<Rightarrow> (nat \<Rightarrow> js_error + 'i provider_result) \<Rightarrow> int \<Rightarrow> int
   \<Rightarrow> (js_error + 'i image_search) \<times> 'i image_search provider_cache" where
  "searchImages md localeCompare cache useCache query providers page perPage mediaType
       backend call now later =
     (let key = searchImages_key localeCompare query providers page perPage mediaType;
          looked = (if useCache then cache_get cache key now else (None, cache))
      in case fst looked of
           Some hit \<Rightarrow> (Inr (hit\<lparr>is_cached := True\<rparr>), snd looked)
         | None \<Rightarrow>
             (case (case md of
                      Backend \<Rightarrow> backend
                    | Direct \<Rightarrow> Inr (searchImages_direct query providers call)) of
                Inl e \<Rightarrow> (Inl e, snd looked)
              | Inr result \<Rightarrow>
                  if useCache
                  then (let s = cache_set_call (snd looked) key result (defaultTTL (snd looked)) later
                        in (case fst s of Some e \<Rightarrow> Inl e | None \<Rightarrow> Inr result, snd s))
                  else (Inr result, snd looked)))"

subsection \<open>StagVault.searchApiProviders (src/stagvault/static/web/app.js)\<close>

record api_provider =
  apiKey :: "string option"
  enabled :: bool

text \<open>\<^verbatim>\<open>getEnabledProviders()\<close> over the entries of \<^verbatim>\<open>this.apiProviders\<close>.\<close>

definition getEnabledProviders :: "(string \<times> api_provider) list \<Rightarrow> string list" where
  "getEnabledProviders providers =
     map fst (filter (\<lambda>(pid, config). enabled config \<and> (pid = ''wikimedia'' \<or> truthy (apiKey config) \<noteq> None))
                providers)"

















section \<open>Properties of the rate-limit tracker\<close>

text \<open>
  C1 (as amended). \<open>shouldWait\<close> is true exactly when a record exists for the provider
  and its remaining count is a number that is at most 1. The threshold is the constant
  1; it does not depend on the record's limit.
\<close>

theorem shouldWait_iff_remaining_le_1:
  "shouldWait limits provider \<longleftrightarrow>
     (\<exists>info r. limits provider = Some info \<and> remaining info = Num r \<and> r \<le> 1)"
proof (cases "limits provider")
  case None
  then show ?thesis by (simp add: shouldWait_def)
next
  case (Some info)
  then show ?thesis by (cases "remaining info") (simp_all add: shouldWait_def)
qed

text \<open>
  C1 (as stated) fails: with a limit of 1000 and 20 requests remaining, the tiered
  threshold of the specification (3 percent, that is 30) asks to wait, the code does not.
\<close>

theorem shouldWait_tiers_counterexample:
  "spec_shouldWait (update new_tracker ''pexels'' (Num 1000, Num 20, Num 60) 0) ''pexels''
   \<and> \<not> shouldWait (update new_tracker ''pexels'' (Num 1000, Num 20, Num 60) 0) ''pexels''"
  by (simp add: spec_shouldWait_def shouldWait_def update_def new_tracker_def
      spec_reserve_threshold_def)

subsection \<open>The wait time\<close>

lemma waitTime_no_wait: "\<not> shouldWait limits provider \<Longrightarrow> waitTime rnd limits provider now = Num 0"
  by (simp add: waitTime_def split: option.splits)

lemma waitTime_no_record: "limits provider = None \<Longrightarrow> waitTime rnd limits provider now = Num 0"
  by (simp add: waitTime_def)

lemma waitTime_formula:
  "limits provider = Some info \<Longrightarrow> shouldWait limits provider \<Longrightarrow>
   waitTime rnd limits provider now =
     js_round rnd (js_mul (js_max (Num 0)
         (js_round rnd (js_sub (reset_seconds info)
            (js_round rnd (Num (of_int (now - updatedAt info) / 1000))))))
       (Num 1000))"
  by (simp add: waitTime_def)

text \<open>
  With a numeric \<open>reset_seconds\<close> the result is a number and at least 0, whatever the
  host's rounding does beyond keeping 0 and being monotone.
\<close>

lemma waitTime_numeric_nonneg:
  assumes "rounding rnd" and "limits provider = Some info" and "reset_seconds info = Num s"
  shows "\<exists>w. waitTime rnd limits provider now = Num w \<and> 0 \<le> w"
proof (cases "shouldWait limits provider")
  case False
  then show ?thesis by (simp add: waitTime_no_wait)
next
  case True
  define e where "e = rnd (of_int (now - updatedAt info) / 1000)"
  define m where "m = max 0 (rnd (s - e))"
  have w: "waitTime rnd limits provider now = Num (rnd (m * 1000))"
    using assms(2,3) True by (simp add: waitTime_formula js_round_def m_def e_def)
  have "0 \<le> m * 1000" by (simp add: m_def)
  with assms(1) have "rnd 0 \<le> rnd (m * 1000)" unfolding rounding_def by blast
  with assms(1) have "0 \<le> rnd (m * 1000)" by (simp add: rounding_def)
  with w show ?thesis by simp
qed

lemma backpressure_scenario:
  "limits provider = Some info \<Longrightarrow> remaining info = Num 1 \<Longrightarrow> shouldWait limits provider"
  by (simp add: shouldWait_def)

text \<open>
  C9 (the code departs from the claim). \<open>waitTime\<close> clamps its result with
  \<^verbatim>\<open>Math.max(0, ...)\<close>, and the clamp lets \<open>NaN\<close> through: a response with no request
  remaining whose reset header is an HTTP date records \<open>NaN\<close> seconds, \<open>shouldWait\<close>
  is true, and \<open>waitTime\<close> is \<open>NaN\<close>, which is not at least 0. The rounding of the
  host plays no part in it.
\<close>

theorem waitTime_nan_for_dated_reset:
  "shouldWait (rateLimits (snd (directRequest (new_client [''pixabay'' \<mapsto> ''key'']) ''pixabay''
        (Response dated_response) 1000))) ''pixabay''
   \<and> waitTime rnd (rateLimits (snd (directRequest (new_client [''pixabay'' \<mapsto> ''key'']) ''pixabay''
        (Response dated_response) 1000))) ''pixabay'' 6000 = NaN
   \<and> \<not> js_le (Num 0) (waitTime rnd (rateLimits (snd (directRequest (new_client [''pixabay'' \<mapsto> ''key''])
        ''pixabay'' (Response dated_response) 1000))) ''pixabay'' 6000)"
proof -
  have p0: "js_parseInt ''0'' = Num 0" by code_simp
  have pd: "js_parseInt ''Mon, 02 Nov 2026 08:00:00 GMT'' = NaN" by code_simp
  have "rateLimits (snd (directRequest (new_client [''pixabay'' \<mapsto> ''key'']) ''pixabay''
        (Response dated_response) 1000)) ''pixabay''
      = Some \<lparr>limit = js_parseInt ''100'', remaining = Num 0, reset_seconds = NaN, updatedAt = 1000\<rparr>"
    by (simp add: directRequest_def new_client_def PROVIDER_CONFIGS_def has_api_key_def
        dated_response_def ok_def update_def rate_headers_def or_default_def p0 pd)
  then show ?thesis
    by (simp add: shouldWait_def waitTime_def js_round_def)
qed

subsection \<open>Recording the response headers\<close>

lemma parseInt_100: "js_parseInt ''100'' = Num 100" by code_simp
lemma parseInt_60: "js_parseInt ''60'' = Num 60" by code_simp

lemma directRequest_tracker:
  "configs c p \<noteq> None \<Longrightarrow> has_api_key c p \<Longrightarrow>
   rateLimits (snd (directRequest c p (Response r) now)) = update (rateLimits c) p (rate_headers r) now"
  by (auto simp: directRequest_def Let_def split: option.splits)

lemma directRequest_tracker_other:
  "q \<noteq> p \<Longrightarrow> rateLimits (snd (directRequest c p outcome now)) q = rateLimits c q"
  by (simp add: directRequest_def Let_def update_def split: option.splits fetch_outcome.splits prod.splits)

lemma directRequest_no_response:
  "rateLimits (snd (directRequest c p (Rejected e) now)) = rateLimits c"
  by (simp add: directRequest_def)

lemma directRequest_tracker_cases:
  "rateLimits (snd (directRequest c p outcome now)) = rateLimits c \<or>
   (\<exists>r. outcome = Response r \<and>
      rateLimits (snd (directRequest c p outcome now)) = update (rateLimits c) p (rate_headers r) now)"
  by (cases outcome) (simp_all add: directRequest_def Let_def split: option.splits)

lemma quiet_not_shouldWait: "quiet limits p \<Longrightarrow> \<not> shouldWait limits p"
  by (auto simp: quiet_def shouldWait_def split: option.splits)

lemma missing_default: "header_missing r name \<Longrightarrow> or_default (headers_get r name) d = d"
  by (auto simp: header_missing_def or_default_def)

lemma quiet_step:
  assumes "quiet (rateLimits c) p"
    and "q = p \<longrightarrow> (case outcome of Rejected e \<Rightarrow> True | Response r \<Rightarrow> header_missing r ''X-RateLimit-Remaining'')"
  shows "quiet (rateLimits (snd (directRequest c q outcome now))) p"
proof (cases "q = p")
  case False
  then show ?thesis using assms(1) by (simp add: quiet_def directRequest_tracker_other)
next
  case True
  from directRequest_tracker_cases [of c q outcome now] show ?thesis
  proof
    assume "rateLimits (snd (directRequest c q outcome now)) = rateLimits c"
    then show ?thesis using assms(1) by simp
  next
    assume "\<exists>r. outcome = Response r \<and>
      rateLimits (snd (directRequest c q outcome now)) = update (rateLimits c) q (rate_headers r) now"
    then obtain r where r: "outcome = Response r"
      and u: "rateLimits (snd (directRequest c q outcome now)) = update (rateLimits c) q (rate_headers r) now"
      by blast
    from assms(2) True r have "header_missing r ''X-RateLimit-Remaining''" by simp
    then show ?thesis using True u
      by (simp add: quiet_def update_def rate_headers_def missing_default parseInt_100)
  qed
qed

lemma quiet_requests:
  "quiet (rateLimits c) p \<Longrightarrow>
   \<forall>(q, outcome, now) \<in> set evs. q = p \<longrightarrow>
      (case outcome of Rejected e \<Rightarrow> True | Response r \<Rightarrow> header_missing r ''X-RateLimit-Remaining'') \<Longrightarrow>
   quiet (rateLimits (requests c evs)) p"
proof (induction evs arbitrary: c)
  case Nil
  then show ?case by simp
next
  case (Cons ev evs)
  obtain q outcome now where ev: "ev = (q, outcome, now)" by (cases ev)
  from Cons.prems(2) ev have
    "q = p \<longrightarrow> (case outcome of Rejected e \<Rightarrow> True | Response r \<Rightarrow> header_missing r ''X-RateLimit-Remaining'')"
    by simp
  with Cons.prems(1) have "quiet (rateLimits (snd (directRequest c q outcome now))) p"
    by (rule quiet_step)
  moreover from Cons.prems(2) have "\<forall>(q, outcome, now) \<in> set evs. q = p \<longrightarrow>
      (case outcome of Rejected e \<Rightarrow> True | Response r \<Rightarrow> header_missing r ''X-RateLimit-Remaining'')"
    by simp
  ultimately show ?case using Cons.IH ev by simp
qed

subsection \<open>Decimal strings\<close>

lemma of_char_digit_char: "d < 10 \<Longrightarrow> (of_char (digit_char d) :: nat) = 48 + d"
  by (simp add: digit_char_def)

lemma digit_char_neq:
  assumes "d < 10" and "(of_char c :: nat) < 48"
  shows "digit_char d \<noteq> c"
proof
  assume "digit_char d = c"
  then have "(of_char (digit_char d) :: nat) = of_char c" by simp
  with assms show False by (simp add: of_char_digit_char)
qed

lemma digit_char_neq_upper:
  assumes "d < 10" and "(of_char c :: nat) > 57"
  shows "digit_char d \<noteq> c"
proof
  assume "digit_char d = c"
  then have "(of_char (digit_char d) :: nat) = of_char c" by simp
  with assms show False by (simp add: of_char_digit_char)
qed

lemma digit_char_props:
  assumes "d < 10"
  shows "radix_digit 10 (digit_char d) = Some d"
    and "\<not> is_js_whitespace (digit_char d)"
    and "digit_char d \<noteq> CHR ''+''" and "digit_char d \<noteq> CHR ''-''"
    and "digit_char d \<noteq> CHR ''x''" and "digit_char d \<noteq> CHR ''X''"
proof -
  show "radix_digit 10 (digit_char d) = Some d"
    using assms by (simp add: radix_digit_def digit_of_def of_char_digit_char Let_def)
  show "\<not> is_js_whitespace (digit_char d)"
    unfolding is_js_whitespace_def using assms by (simp add: digit_char_neq)
  show "digit_char d \<noteq> CHR ''+''" using assms by (simp add: digit_char_neq)
  show "digit_char d \<noteq> CHR ''-''" using assms by (simp add: digit_char_neq)
  show "digit_char d \<noteq> CHR ''x''" using assms by (simp add: digit_char_neq_upper)
  show "digit_char d \<noteq> CHR ''X''" using assms by (simp add: digit_char_neq_upper)
qed

lemma decimal_string_of_nat: "decimal (string_of_nat n)"
proof (induction n rule: string_of_nat.induct)
  case (1 n)
  show ?case
  proof (cases "n < 10")
    case True
    then have "string_of_nat n = [digit_char n]" by (subst string_of_nat.simps) simp
    then show ?thesis using True by (auto simp: decimal_def)
  next
    case False
    with 1 have "decimal (string_of_nat (n div 10))" by simp
    moreover have "n mod 10 < 10" by simp
    moreover have "string_of_nat n = string_of_nat (n div 10) @ [digit_char (n mod 10)]"
      using False by (subst string_of_nat.simps) simp
    moreover have "\<exists>d<10. digit_char (n mod 10) = digit_char d"
      by (rule exI [of _ "n mod 10"]) simp
    ultimately show ?thesis
      unfolding decimal_def by auto
  qed
qed

lemma digits_value_snoc:
  "digits_value R (Z @ [c]) = digits_value R Z * R + (case radix_digit R c of None \<Rightarrow> 0 | Some d \<Rightarrow> d)"
  by (simp add: digits_value_def)

lemma digits_value_string_of_nat: "digits_value 10 (string_of_nat n) = n"
proof (induction n rule: string_of_nat.induct)
  case (1 n)
  show ?case
  proof (cases "n < 10")
    case True
    then have "string_of_nat n = [digit_char n]" by (subst string_of_nat.simps) simp
    then show ?thesis using True
      by (simp add: digits_value_def digit_char_props)
  next
    case False
    with 1 have "digits_value 10 (string_of_nat (n div 10)) = n div 10" by simp
    moreover have "string_of_nat n = string_of_nat (n div 10) @ [digit_char (n mod 10)]"
      using False by (subst string_of_nat.simps) simp
    moreover have "radix_digit 10 (digit_char (n mod 10)) = Some (n mod 10)"
      by (rule digit_char_props) simp
    ultimately show ?thesis
      by (simp add: digits_value_snoc)
  qed
qed

lemma decimal_no_space: "decimal s \<Longrightarrow> dropWhile is_js_whitespace s = s"
  by (cases s) (auto simp: decimal_def digit_char_props(2))

lemma decimal_all_digits: "decimal s \<Longrightarrow> takeWhile (\<lambda>c. radix_digit 10 c \<noteq> None) s = s"
  unfolding takeWhile_eq_all_conv decimal_def using digit_char_props(1) by fastforce

lemma decimal_not_negative:
  "decimal s \<Longrightarrow> (case s of c # _ \<Rightarrow> c = CHR ''-'' | [] \<Rightarrow> False) = False"
  by (cases s) (auto simp: decimal_def digit_char_props(4))

lemma decimal_no_sign:
  "decimal s \<Longrightarrow>
   (case s of c # r \<Rightarrow> if c = CHR ''+'' \<or> c = CHR ''-'' then r else s | [] \<Rightarrow> s) = s"
  by (cases s) (auto simp: decimal_def digit_char_props(3,4))

lemma decimal_no_hex:
  assumes "decimal s"
  shows "(take 2 s = ''0x'' \<or> take 2 s = ''0X'') = False"
proof -
  from assms have all: "\<forall>c \<in> set s. \<exists>d < 10. c = digit_char d"
    by (simp add: decimal_def)
  have nox: "CHR ''x'' \<notin> set s" "CHR ''X'' \<notin> set s"
  proof -
    show "CHR ''x'' \<notin> set s"
    proof
      assume "CHR ''x'' \<in> set s"
      with all obtain d where "d < 10" "CHR ''x'' = digit_char d" by blast
      with digit_char_props(5) [of d] show False by simp
    qed
    show "CHR ''X'' \<notin> set s"
    proof
      assume "CHR ''X'' \<in> set s"
      with all obtain d where "d < 10" "CHR ''X'' = digit_char d" by blast
      with digit_char_props(6) [of d] show False by simp
    qed
  qed
  have "take 2 s \<noteq> ''0x''"
  proof
    assume "take 2 s = ''0x''"
    then have "CHR ''x'' \<in> set (take 2 s)" by simp
    then have "CHR ''x'' \<in> set s" by (rule in_set_takeD)
    with nox show False by simp
  qed
  moreover have "take 2 s \<noteq> ''0X''"
  proof
    assume "take 2 s = ''0X''"
    then have "CHR ''X'' \<in> set (take 2 s)" by simp
    then have "CHR ''X'' \<in> set s" by (rule in_set_takeD)
    with nox show False by simp
  qed
  ultimately show ?thesis by simp
qed

text \<open>\<^verbatim>\<open>parseInt\<close> of a run of decimal digits is the number the digits write.\<close>

lemma parseInt_decimal:
  assumes "decimal s"
  shows "js_parseInt s = Num (of_nat (digits_value 10 s))"
proof -
  from assms have ne: "s \<noteq> []" by (simp add: decimal_def)
  show ?thesis
    unfolding js_parseInt_def Let_def decimal_no_space [OF assms] decimal_not_negative [OF assms]
      decimal_no_sign [OF assms] decimal_no_hex [OF assms] if_False decimal_all_digits [OF assms]
    using ne by simp
qed

lemma parseInt_string_of_nat: "js_parseInt (string_of_nat n) = Num (of_nat n)"
  by (simp add: parseInt_decimal decimal_string_of_nat digits_value_string_of_nat)

lemma string_of_nat_not_empty: "string_of_nat n \<noteq> []"
  using decimal_string_of_nat [of n] by (simp add: decimal_def)

lemma present_value: "s \<noteq> [] \<Longrightarrow> or_default (Some s) d = s"
  by (simp add: or_default_def)

text \<open>
  C10. Once a provider is configured and has a key, every response, whatever its status,
  overwrites the provider's record and stamps it with the current time, before the call
  fails on status 429 with "Rate limit exceeded". Each field of the record is
  \<^verbatim>\<open>parseInt\<close> of its header when the header is present, which for a header that
  writes a number in decimal digits is that number, and the default 100, 100 or 60 when
  the header is missing. After a response whose remaining header writes the number
  \<open>n\<close>, \<open>shouldWait\<close> holds exactly when \<open>n\<close> is at most 1. Over any sequence of
  requests of a new client in which no response for the provider carries the remaining
  header, every record of the provider has 100 remaining and \<open>shouldWait\<close> is false.
\<close>

theorem directRequest_records_rate_limit:
  "(configs c p \<noteq> None \<and> has_api_key c p \<longrightarrow>
      (\<exists>info. rateLimits (snd (directRequest c p (Response r) now)) p = Some info
         \<and> updatedAt info = now
         \<and> (\<forall>s. headers_get r ''X-RateLimit-Limit'' = Some s \<and> s \<noteq> [] \<longrightarrow>
                limit info = js_parseInt s)
         \<and> (\<forall>s. headers_get r ''X-RateLimit-Remaining'' = Some s \<and> s \<noteq> [] \<longrightarrow>
                remaining info = js_parseInt s)
         \<and> (\<forall>s. headers_get r ''X-RateLimit-Reset'' = Some s \<and> s \<noteq> [] \<longrightarrow>
                reset_seconds info = js_parseInt s)
         \<and> (\<forall>n. headers_get r ''X-RateLimit-Limit'' = Some (string_of_nat n)
                \<and> n \<le> 2 ^ 53 \<longrightarrow> limit info = Num (of_nat n))
         \<and> (\<forall>n. headers_get r ''X-RateLimit-Remaining'' = Some (string_of_nat n)
                \<and> n \<le> 2 ^ 53 \<longrightarrow> remaining info = Num (of_nat n))
         \<and> (\<forall>n. headers_get r ''X-RateLimit-Reset'' = Some (string_of_nat n)
                \<and> n \<le> 2 ^ 53 \<longrightarrow> reset_seconds info = Num (of_nat n))
         \<and> (header_missing r ''X-RateLimit-Limit'' \<longrightarrow> limit info = Num 100)
         \<and> (header_missing r ''X-RateLimit-Remaining'' \<longrightarrow> remaining info = Num 100)
         \<and> (header_missing r ''X-RateLimit-Reset'' \<longrightarrow> reset_seconds info = Num 60)))
   \<and> (configs c p \<noteq> None \<and> has_api_key c p \<and> status r = 429 \<longrightarrow>
        fst (directRequest c p (Response r) now) = Inl (Error ''Rate limit exceeded''))
   \<and> (\<forall>n. configs c p \<noteq> None \<and> has_api_key c p
          \<and> headers_get r ''X-RateLimit-Remaining'' = Some (string_of_nat n) \<and> n \<le> 2 ^ 53 \<longrightarrow>
        (shouldWait (rateLimits (snd (directRequest c p (Response r) now))) p \<longleftrightarrow> n \<le> 1))
   \<and> ((\<forall>(q, outcome, t) \<in> set evs. q = p \<longrightarrow>
          (case outcome of Rejected e \<Rightarrow> True
           | Response r' \<Rightarrow> header_missing r' ''X-RateLimit-Remaining'')) \<longrightarrow>
        \<not> shouldWait (rateLimits (requests (new_client api_keys) evs)) p
        \<and> (\<forall>info. rateLimits (requests (new_client api_keys) evs) p = Some info \<longrightarrow>
              remaining info = Num 100))"
proof (intro conjI)
  show "configs c p \<noteq> None \<and> has_api_key c p \<longrightarrow>
      (\<exists>info. rateLimits (snd (directRequest c p (Response r) now)) p = Some info
         \<and> updatedAt info = now
         \<and> (\<forall>s. headers_get r ''X-RateLimit-Limit'' = Some s \<and> s \<noteq> [] \<longrightarrow>
                limit info = js_parseInt s)
         \<and> (\<forall>s. headers_get r ''X-RateLimit-Remaining'' = Some s \<and> s \<noteq> [] \<longrightarrow>
                remaining info = js_parseInt s)
         \<and> (\<forall>s. headers_get r ''X-RateLimit-Reset'' = Some s \<and> s \<noteq> [] \<longrightarrow>
                reset_seconds info = js_parseInt s)
         \<and> (\<forall>n. headers_get r ''X-RateLimit-Limit'' = Some (string_of_nat n)
                \<and> n \<le> 2 ^ 53 \<longrightarrow> limit info = Num (of_nat n))
         \<and> (\<forall>n. headers_get r ''X-RateLimit-Remaining'' = Some (string_of_nat n)
                \<and> n \<le> 2 ^ 53 \<longrightarrow> remaining info = Num (of_nat n))
         \<and> (\<forall>n. headers_get r ''X-RateLimit-Reset'' = Some (string_of_nat n)
                \<and> n \<le> 2 ^ 53 \<longrightarrow> reset_seconds info = Num (of_nat n))
         \<and> (header_missing r ''X-RateLimit-Limit'' \<longrightarrow> limit info = Num 100)
         \<and> (header_missing r ''X-RateLimit-Remaining'' \<longrightarrow> remaining info = Num 100)
         \<and> (header_missing r ''X-RateLimit-Reset'' \<longrightarrow> reset_seconds info = Num 60))"
  proof
    assume a: "configs c p \<noteq> None \<and> has_api_key c p"
    define info where "info =
      \<lparr>limit = js_parseInt (or_default (headers_get r ''X-RateLimit-Limit'') ''100''),
       remaining = js_parseInt (or_default (headers_get r ''X-RateLimit-Remaining'') ''100''),
       reset_seconds = js_parseInt (or_default (headers_get r ''X-RateLimit-Reset'') ''60''),
       updatedAt = now\<rparr>"
    from a have rec: "rateLimits (snd (directRequest c p (Response r) now)) p = Some info"
      by (simp add: directRequest_tracker update_def rate_headers_def info_def)
    have "updatedAt info = now" by (simp add: info_def)
    moreover have "\<forall>s. headers_get r ''X-RateLimit-Limit'' = Some s \<and> s \<noteq> [] \<longrightarrow>
        limit info = js_parseInt s"
      by (simp add: info_def present_value)
    moreover have "\<forall>s. headers_get r ''X-RateLimit-Remaining'' = Some s \<and> s \<noteq> [] \<longrightarrow>
        remaining info = js_parseInt s"
      by (simp add: info_def present_value)
    moreover have "\<forall>s. headers_get r ''X-RateLimit-Reset'' = Some s \<and> s \<noteq> [] \<longrightarrow>
        reset_seconds info = js_parseInt s"
      by (simp add: info_def present_value)
    moreover have "\<forall>n. headers_get r ''X-RateLimit-Limit'' = Some (string_of_nat n)
        \<and> n \<le> 2 ^ 53 \<longrightarrow> limit info = Num (of_nat n)"
      by (simp add: info_def present_value string_of_nat_not_empty parseInt_string_of_nat)
    moreover have "\<forall>n. headers_get r ''X-RateLimit-Remaining'' = Some (string_of_nat n)
        \<and> n \<le> 2 ^ 53 \<longrightarrow> remaining info = Num (of_nat n)"
      by (simp add: info_def present_value string_of_nat_not_empty parseInt_string_of_nat)
    moreover have "\<forall>n. headers_get r ''X-RateLimit-Reset'' = Some (string_of_nat n)
        \<and> n \<le> 2 ^ 53 \<longrightarrow> reset_seconds info = Num (of_nat n)"
      by (simp add: info_def present_value string_of_nat_not_empty parseInt_string_of_nat)
    moreover have "header_missing r ''X-RateLimit-Limit'' \<longrightarrow> limit info = Num 100"
      by (simp add: info_def missing_default parseInt_100)
    moreover have "header_missing r ''X-RateLimit-Remaining'' \<longrightarrow> remaining info = Num 100"
      by (simp add: info_def missing_default parseInt_100)
    moreover have "header_missing r ''X-RateLimit-Reset'' \<longrightarrow> reset_seconds info = Num 60"
      by (simp add: info_def missing_default parseInt_60)
    ultimately show "\<exists>info. rateLimits (snd (directRequest c p (Response r) now)) p = Some info
         \<and> updatedAt info = now
         \<and> (\<forall>s. headers_get r ''X-RateLimit-Limit'' = Some s \<and> s \<noteq> [] \<longrightarrow>
                limit info = js_parseInt s)
         \<and> (\<forall>s. headers_get r ''X-RateLimit-Remaining'' = Some s \<and> s \<noteq> [] \<longrightarrow>
                remaining info = js_parseInt s)
         \<and> (\<forall>s. headers_get r ''X-RateLimit-Reset'' = Some s \<and> s \<noteq> [] \<longrightarrow>
                reset_seconds info = js_parseInt s)
         \<and> (\<forall>n. headers_get r ''X-RateLimit-Limit'' = Some (string_of_nat n)
                \<and> n \<le> 2 ^ 53 \<longrightarrow> limit info = Num (of_nat n))
         \<and> (\<forall>n. headers_get r ''X-RateLimit-Remaining'' = Some (string_of_nat n)
                \<and> n \<le> 2 ^ 53 \<longrightarrow> remaining info = Num (of_nat n))
         \<and> (\<forall>n. headers_get r ''X-RateLimit-Reset'' = Some (string_of_nat n)
                \<and> n \<le> 2 ^ 53 \<longrightarrow> reset_seconds info = Num (of_nat n))
         \<and> (header_missing r ''X-RateLimit-Limit'' \<longrightarrow> limit info = Num 100)
         \<and> (header_missing r ''X-RateLimit-Remaining'' \<longrightarrow> remaining info = Num 100)
         \<and> (header_missing r ''X-RateLimit-Reset'' \<longrightarrow> reset_seconds info = Num 60)"
      using rec by blast
  qed
next
  show "configs c p \<noteq> None \<and> has_api_key c p \<and> status r = 429 \<longrightarrow>
        fst (directRequest c p (Response r) now) = Inl (Error ''Rate limit exceeded'')"
    by (simp add: directRequest_def Let_def)
next
  show "\<forall>n. configs c p \<noteq> None \<and> has_api_key c p
          \<and> headers_get r ''X-RateLimit-Remaining'' = Some (string_of_nat n) \<and> n \<le> 2 ^ 53 \<longrightarrow>
        (shouldWait (rateLimits (snd (directRequest c p (Response r) now))) p \<longleftrightarrow> n \<le> 1)"
    by (simp add: directRequest_tracker update_def rate_headers_def shouldWait_def present_value
        string_of_nat_not_empty parseInt_string_of_nat)
next
  show "(\<forall>(q, outcome, t) \<in> set evs. q = p \<longrightarrow>
          (case outcome of Rejected e \<Rightarrow> True
           | Response r' \<Rightarrow> header_missing r' ''X-RateLimit-Remaining'')) \<longrightarrow>
        \<not> shouldWait (rateLimits (requests (new_client api_keys) evs)) p
        \<and> (\<forall>info. rateLimits (requests (new_client api_keys) evs) p = Some info \<longrightarrow>
              remaining info = Num 100)"
  proof (intro impI conjI)
    assume a: "\<forall>(q, outcome, t) \<in> set evs. q = p \<longrightarrow>
          (case outcome of Rejected e \<Rightarrow> True
           | Response r' \<Rightarrow> header_missing r' ''X-RateLimit-Remaining'')"
    have "quiet (rateLimits (new_client api_keys)) p"
      by (simp add: quiet_def new_client_def new_tracker_def)
    then have q: "quiet (rateLimits (requests (new_client api_keys) evs)) p"
      using a by (rule quiet_requests)
    then show "\<not> shouldWait (rateLimits (requests (new_client api_keys) evs)) p"
      by (rule quiet_not_shouldWait)
    from q show "\<forall>info. rateLimits (requests (new_client api_keys) evs) p = Some info \<longrightarrow>
              remaining info = Num 100"
      by (simp add: quiet_def split: option.splits)
  qed
qed

theorem directRequest_records_rate_limit_witness:
  "rateLimits (snd (directRequest (new_client [''pexels'' \<mapsto> ''key'']) ''pexels''
       (Response (limited_response 429)) 7)) ''pexels''
     = Some \<lparr>limit = Num 200, remaining = Num 1, reset_seconds = Num 30, updatedAt = 7\<rparr>
   \<and> fst (directRequest (new_client [''pexels'' \<mapsto> ''key'']) ''pexels''
       (Response (limited_response 429)) 7) = Inl (Error ''Rate limit exceeded'')
   \<and> shouldWait (rateLimits (snd (directRequest (new_client [''pexels'' \<mapsto> ''key'']) ''pexels''
       (Response (limited_response 429)) 7))) ''pexels''
   \<and> rateLimits (snd (directRequest (new_client [''pexels'' \<mapsto> ''key'']) ''pexels''
       (Response (bare_response 429)) 7)) ''pexels''
     = Some \<lparr>limit = Num 100, remaining = Num 100, reset_seconds = Num 60, updatedAt = 7\<rparr>
   \<and> \<not> shouldWait (rateLimits (requests (new_client [''pexels'' \<mapsto> ''key''])
        [(''pexels'', Response (bare_response 200), 1), (''pexels'', Response (bare_response 429), 2)]))
        ''pexels''"
proof -
  let ?c = "new_client [''pexels'' \<mapsto> ''key'']"
  let ?evs = "[(''pexels'', Response (bare_response 200), 1), (''pexels'', Response (bare_response 429), 2)]"
  have h1: "configs ?c ''pexels'' \<noteq> None \<and> has_api_key ?c ''pexels''"
    by (simp add: new_client_def PROVIDER_CONFIGS_def has_api_key_def)
  have s200: "string_of_nat 200 = ''200''" by code_simp
  have s1: "string_of_nat 1 = ''1''" by code_simp
  have s30: "string_of_nat 30 = ''30''" by code_simp
  have g1: "headers_get (limited_response 429) ''X-RateLimit-Limit'' = Some (string_of_nat 200)"
    by (simp add: limited_response_def s200)
  have g2: "headers_get (limited_response 429) ''X-RateLimit-Remaining'' = Some (string_of_nat 1)"
    using s1 by (simp add: limited_response_def)
  have g3: "headers_get (limited_response 429) ''X-RateLimit-Reset'' = Some (string_of_nat 30)"
    by (simp add: limited_response_def s30)
  have b200: "(200::nat) \<le> 2 ^ 53" and b1: "(1::nat) \<le> 2 ^ 53" and b30: "(30::nat) \<le> 2 ^ 53"
    by simp_all
  have h2: "status (limited_response 429) = 429"
    by (simp add: limited_response_def)
  have h3: "header_missing (bare_response 429) ''X-RateLimit-Limit''
      \<and> header_missing (bare_response 429) ''X-RateLimit-Remaining''
      \<and> header_missing (bare_response 429) ''X-RateLimit-Reset''"
    by (simp add: bare_response_def header_missing_def)
  have h4: "\<forall>(q, outcome, t) \<in> set ?evs. q = ''pexels'' \<longrightarrow>
      (case outcome of Rejected e \<Rightarrow> True
       | Response r' \<Rightarrow> header_missing r' ''X-RateLimit-Remaining'')"
    by (simp add: bare_response_def header_missing_def)
  note T = directRequest_records_rate_limit [of ?c "''pexels''" "limited_response 429" 7 ?evs
      "[''pexels'' \<mapsto> ''key'']"]
  note U = directRequest_records_rate_limit [of ?c "''pexels''" "bare_response 429" 7 ?evs
      "[''pexels'' \<mapsto> ''key'']"]
  note T1 = T [THEN conjunct1] and T2 = T [THEN conjunct2, THEN conjunct1]
    and T3 = T [THEN conjunct2, THEN conjunct2, THEN conjunct1]
    and T4 = T [THEN conjunct2, THEN conjunct2, THEN conjunct2]
  note U1 = U [THEN conjunct1]
  from mp [OF T1 h1] obtain info where
    i: "rateLimits (snd (directRequest ?c ''pexels'' (Response (limited_response 429)) 7)) ''pexels'' = Some info"
    and i0: "updatedAt info = 7"
    and i1: "\<forall>n. headers_get (limited_response 429) ''X-RateLimit-Limit'' = Some (string_of_nat n)
                \<and> n \<le> 2 ^ 53 \<longrightarrow> limit info = Num (of_nat n)"
    and i2: "\<forall>n. headers_get (limited_response 429) ''X-RateLimit-Remaining'' = Some (string_of_nat n)
                \<and> n \<le> 2 ^ 53 \<longrightarrow> remaining info = Num (of_nat n)"
    and i3: "\<forall>n. headers_get (limited_response 429) ''X-RateLimit-Reset'' = Some (string_of_nat n)
                \<and> n \<le> 2 ^ 53 \<longrightarrow> reset_seconds info = Num (of_nat n)"
    by blast
  from i1 g1 b200 have "limit info = Num (of_nat 200)" by blast
  moreover from i2 g2 b1 have "remaining info = Num (of_nat 1)" by blast
  moreover from i3 g3 b30 have "reset_seconds info = Num (of_nat 30)" by blast
  ultimately have "info = \<lparr>limit = Num 200, remaining = Num 1, reset_seconds = Num 30, updatedAt = 7\<rparr>"
    using i0 by (cases info) simp
  with i have a: "rateLimits (snd (directRequest ?c ''pexels'' (Response (limited_response 429)) 7)) ''pexels''
     = Some \<lparr>limit = Num 200, remaining = Num 1, reset_seconds = Num 30, updatedAt = 7\<rparr>"
    by simp
  from mp [OF T2] h1 h2 have b: "fst (directRequest ?c ''pexels'' (Response (limited_response 429)) 7)
     = Inl (Error ''Rate limit exceeded'')"
    by blast
  from spec [OF T3, of 1] h1 g2 b1 have
    "shouldWait (rateLimits (snd (directRequest ?c ''pexels'' (Response (limited_response 429)) 7))) ''pexels''
      \<longleftrightarrow> (1::nat) \<le> 1"
    by blast
  then have c: "shouldWait (rateLimits (snd (directRequest ?c ''pexels'' (Response (limited_response 429)) 7))) ''pexels''"
    by simp
  from mp [OF U1 h1] obtain info' where
    j: "rateLimits (snd (directRequest ?c ''pexels'' (Response (bare_response 429)) 7)) ''pexels'' = Some info'"
    and j0: "updatedAt info' = 7"
    and j1: "header_missing (bare_response 429) ''X-RateLimit-Limit'' \<longrightarrow> limit info' = Num 100"
    and j2: "header_missing (bare_response 429) ''X-RateLimit-Remaining'' \<longrightarrow> remaining info' = Num 100"
    and j3: "header_missing (bare_response 429) ''X-RateLimit-Reset'' \<longrightarrow> reset_seconds info' = Num 60"
    by blast
  from j0 j1 j2 j3 h3 have
    "info' = \<lparr>limit = Num 100, remaining = Num 100, reset_seconds = Num 60, updatedAt = 7\<rparr>"
    by (cases info') simp
  with j have d: "rateLimits (snd (directRequest ?c ''pexels'' (Response (bare_response 429)) 7)) ''pexels''
     = Some \<lparr>limit = Num 100, remaining = Num 100, reset_seconds = Num 60, updatedAt = 7\<rparr>"
    by simp
  from mp [OF T4 h4] have e: "\<not> shouldWait (rateLimits (requests ?c ?evs)) ''pexels''"
    by blast
  from a b c d e show ?thesis by blast
qed

section \<open>Properties of the ranking score\<close>

lemma startsWith_iff: "startsWith str q \<longleftrightarrow> (\<exists>r. str = q @ r)"
  unfolding startsWith_def
  by (metis append_eq_conv_conj append_take_drop_id)

lemma endsWith_iff: "endsWith str q \<longleftrightarrow> (\<exists>a. str = a @ q)"
proof
  assume "endsWith str q"
  then have "str = take (length str - length q) str @ q"
    by (metis append_take_drop_id endsWith_def)
  then show "\<exists>a. str = a @ q" ..
next
  assume "\<exists>a. str = a @ q"
  then show "endsWith str q" by (auto simp: endsWith_def)
qed

lemma str_includes_iff: "str_includes str q \<longleftrightarrow> (\<exists>a b. str = a @ q @ b)"
proof (induction str)
  case Nil
  then show ?case by auto
next
  case (Cons c cs)
  show ?case
  proof
    assume "str_includes (c # cs) q"
    then consider "startsWith (c # cs) q" | "str_includes cs q" by auto
    then show "\<exists>a b. c # cs = a @ q @ b"
    proof cases
      case 1
      then obtain r where "c # cs = q @ r" by (auto simp: startsWith_iff)
      then have "c # cs = [] @ q @ r" by simp
      then show ?thesis by blast
    next
      case 2
      then obtain a b where "cs = a @ q @ b" using Cons.IH by blast
      then have "c # cs = (c # a) @ q @ b" by simp
      then show ?thesis by blast
    qed
  next
    assume "\<exists>a b. c # cs = a @ q @ b"
    then obtain a b where ab: "c # cs = a @ q @ b" by blast
    show "str_includes (c # cs) q"
    proof (cases a)
      case Nil
      with ab have "startsWith (c # cs) q" by (auto simp: startsWith_iff)
      then show ?thesis by simp
    next
      case (Cons x a')
      with ab have "cs = a' @ q @ b" by simp
      then have "str_includes cs q" using Cons.IH by blast
      then show ?thesis by simp
    qed
  qed
qed

lemma delimited_word_code:
  "delimited_word name q \<longleftrightarrow>
     str_includes name ('': '' @ q) \<or> endsWith name ('' '' @ q) \<or> str_includes name ('' '' @ q @ '' '')"
  by (simp add: delimited_word_def str_includes_iff endsWith_iff)

lemma name_component_code:
  "name_component name q =
     (if name = q then 1000
      else if startsWith name q then 500
      else if str_includes name ('': '' @ q) \<or> endsWith name ('' '' @ q)
              \<or> str_includes name ('' '' @ q @ '' '') then 350
      else if str_includes name q then 100
      else 0)"
  by (simp only: name_component_def delimited_word_code startsWith_iff str_includes_iff)

lemma tag_component_code:
  "tag_component tags q =
     (if q \<in> set tags then 600
      else if list_ex (\<lambda>t. startsWith t q) tags then 250
      else if list_ex (\<lambda>t. str_includes t q) tags then 50
      else 0)"
  by (auto simp: tag_component_def list_ex_iff startsWith_iff str_includes_iff)

lemma getMatchScore_sum:
  "getMatchScore item q =
     name_component (toLowerCase (item_n item)) q + tag_component (lowered_tags item) q
     + length_bonus (toLowerCase (item_n item))"
  by (simp add: getMatchScore_def name_component_code tag_component_code length_bonus_def
      lowered_tags_def Let_def)

lemma length_bonus_bounds: "0 \<le> length_bonus name \<and> length_bonus name \<le> 30"
  by (simp add: length_bonus_def)

lemma name_component_nonneg: "0 \<le> name_component name q"
  by (simp add: name_component_def)

lemma tag_component_exact: "q \<in> set tags \<Longrightarrow> tag_component tags q = 600"
  by (auto simp: tag_component_def)

lemma name_component_starts: "name \<noteq> q \<Longrightarrow> startsWith name q \<Longrightarrow> name_component name q = 500"
  by (simp add: name_component_code)

text \<open>
  C3 (as amended). The score is a function of the item and the query, and it is the sum
  of the name component (1000 for equality with the lowercased name, else 500 for a
  prefix, else 350 when the name contains a colon and a space followed by the query, or
  ends with a space followed by the query, or contains the query between two spaces,
  else 100 for a substring, else 0), the tag component (600 for an equal tag, else 250
  for a tag the query starts, else 50 for a tag containing it, else 0) and the bonus
  \<open>max 0 (30 - length name)\<close>. An item with an equal tag scores more
  than an item whose name is only started by the query and whose tags do not match: the
  bonus, at most 30, cannot make up the difference.
\<close>

theorem getMatchScore_components:
  "getMatchScore item q =
     name_component (toLowerCase (item_n item)) q + tag_component (lowered_tags item) q
     + length_bonus (toLowerCase (item_n item))
   \<and> (q \<in> set (lowered_tags item1)
        \<and> toLowerCase (item_n item2) \<noteq> q \<and> startsWith (toLowerCase (item_n item2)) q
        \<and> tag_component (lowered_tags item2) q = 0
        \<longrightarrow> getMatchScore item2 q < getMatchScore item1 q)"
proof (intro conjI impI)
  show "getMatchScore item q =
     name_component (toLowerCase (item_n item)) q + tag_component (lowered_tags item) q
     + length_bonus (toLowerCase (item_n item))"
    by (rule getMatchScore_sum)
next
  assume a: "q \<in> set (lowered_tags item1)
        \<and> toLowerCase (item_n item2) \<noteq> q \<and> startsWith (toLowerCase (item_n item2)) q
        \<and> tag_component (lowered_tags item2) q = 0"
  have "getMatchScore item2 q = 500 + length_bonus (toLowerCase (item_n item2))"
    using a by (simp add: getMatchScore_sum name_component_starts)
  then have le: "getMatchScore item2 q \<le> 530"
    using length_bonus_bounds [of "toLowerCase (item_n item2)"] by simp
  have "getMatchScore item1 q =
      name_component (toLowerCase (item_n item1)) q + 600 + length_bonus (toLowerCase (item_n item1))"
    using a by (simp add: getMatchScore_sum tag_component_exact)
  then have "600 \<le> getMatchScore item1 q"
    using name_component_nonneg [of "toLowerCase (item_n item1)" q]
      length_bonus_bounds [of "toLowerCase (item_n item1)"] by simp
  with le show "getMatchScore item2 q < getMatchScore item1 q" by simp
qed

theorem getMatchScore_components_witness:
  "getMatchScore user_icon ''us'' < getMatchScore flag_us ''us''
   \<and> getMatchScore flag_us ''us'' = 611 \<and> getMatchScore user_icon ''us'' = 526"
proof -
  have h: "''us'' \<in> set (lowered_tags flag_us)
        \<and> toLowerCase (item_n user_icon) \<noteq> ''us'' \<and> startsWith (toLowerCase (item_n user_icon)) ''us''
        \<and> tag_component (lowered_tags user_icon) ''us'' = 0"
    by (simp add: lowered_tags_def flag_us_def user_icon_def toLowerCase_def lower_char_def
        startsWith_def tag_component_def)
  have a: "getMatchScore user_icon ''us'' < getMatchScore flag_us ''us''"
    using getMatchScore_components [of flag_us "''us''" flag_us user_icon] h by blast
  have b: "getMatchScore flag_us ''us'' = 611" by code_simp
  have c: "getMatchScore user_icon ''us'' = 526" by code_simp
  from a b c show ?thesis by simp
qed

text \<open>
  C3 (as stated) fails on the third tier of the name, whichever way its parenthesis is
  read. In \<open>New User\<close> the query \<open>us\<close> is preceded by a space, yet the code scores it as
  a plain substring (100 + 22), not as a delimited word (350 + 22). In \<open>Flag: USA\<close> the
  query is no word of its own, yet the code scores it in the third tier (350 + 21),
  because it follows a colon and a space.
\<close>

theorem getMatchScore_delimited_counterexample:
  "getMatchScore new_user ''us'' = 122 \<and> spec_score preceded_or_final new_user ''us'' = 372
   \<and> getMatchScore flag_usa ''us'' = 371 \<and> spec_score delimited_both_sides flag_usa ''us'' = 121"
  by code_simp

section \<open>Properties of the cache key\<close>

lemma set_insert_by: "set (insert_by c x xs) = insert x (set xs)"
  by (induction xs) auto

lemma set_js_sort: "set (js_sort c xs) = set xs"
  by (induction xs) (auto simp: set_insert_by)

lemma linear_on_lt:
  "linear_on cmp K \<Longrightarrow> a \<in> K \<Longrightarrow> b \<in> K \<Longrightarrow> a \<noteq> b \<Longrightarrow> cmp a b \<le> 0 \<Longrightarrow> cmp a b < 0"
  unfolding linear_on_def by (metis order_le_less)

lemma linear_on_flip:
  "linear_on cmp K \<Longrightarrow> a \<in> K \<Longrightarrow> b \<in> K \<Longrightarrow> \<not> cmp a b \<le> 0 \<Longrightarrow> cmp b a < 0"
  unfolding linear_on_def by (metis not_le)

lemma linear_on_trans:
  "linear_on cmp K \<Longrightarrow> a \<in> K \<Longrightarrow> b \<in> K \<Longrightarrow> c \<in> K \<Longrightarrow> cmp a b < 0 \<Longrightarrow> cmp b c < 0 \<Longrightarrow> cmp a c < 0"
  unfolding linear_on_def by blast

lemma linear_on_asym:
  "linear_on cmp K \<Longrightarrow> a \<in> K \<Longrightarrow> b \<in> K \<Longrightarrow> cmp a b < 0 \<Longrightarrow> cmp b a < 0 \<Longrightarrow> False"
  unfolding linear_on_def by (metis less_asym)

lemma sorted_insert_by:
  assumes lin: "linear_on cmp K" and xK: "fst x \<in> K"
  shows "fst ` set xs \<subseteq> K \<Longrightarrow> fst x \<notin> fst ` set xs \<Longrightarrow> sorted_wrt (key_lt cmp) xs \<Longrightarrow>
         sorted_wrt (key_lt cmp) (insert_by (\<lambda>e1 e2. cmp (fst e1) (fst e2)) x xs)"
proof (induction xs)
  case Nil
  then show ?case by simp
next
  case (Cons y ys)
  have yK: "fst y \<in> K" using Cons.prems(1) by simp
  have ne: "fst x \<noteq> fst y" using Cons.prems(2) by auto
  have ys_after: "\<forall>z \<in> set ys. key_lt cmp y z" using Cons.prems(3) by simp
  have ys_sorted: "sorted_wrt (key_lt cmp) ys" using Cons.prems(3) by simp
  show ?case
  proof (cases "cmp (fst x) (fst y) \<le> 0")
    case True
    have lt: "cmp (fst x) (fst y) < 0"
      using linear_on_lt [OF lin xK yK ne True] .
    have "\<forall>z \<in> set (y # ys). key_lt cmp x z"
    proof
      fix z assume z: "z \<in> set (y # ys)"
      show "key_lt cmp x z"
      proof (cases "z = y")
        case True
        then show ?thesis using lt by (simp add: key_lt_def)
      next
        case False
        with z have zin: "z \<in> set ys" by simp
        then have "cmp (fst y) (fst z) < 0" using ys_after by (simp add: key_lt_def)
        moreover have "fst z \<in> K" using Cons.prems(1) zin by auto
        ultimately show ?thesis
          using linear_on_trans [OF lin xK yK _ lt] by (simp add: key_lt_def)
      qed
    qed
    then have "sorted_wrt (key_lt cmp) (x # y # ys)"
      using Cons.prems(3) by simp
    then show ?thesis using True by simp
  next
    case False
    have yx: "key_lt cmp y x"
      using linear_on_flip [OF lin xK yK False] by (simp add: key_lt_def)
    have ih: "sorted_wrt (key_lt cmp) (insert_by (\<lambda>e1 e2. cmp (fst e1) (fst e2)) x ys)"
      using Cons.IH Cons.prems(1,2) ys_sorted by auto
    have "\<forall>z \<in> set (insert_by (\<lambda>e1 e2. cmp (fst e1) (fst e2)) x ys). key_lt cmp y z"
      using yx ys_after by (simp add: set_insert_by)
    then have "sorted_wrt (key_lt cmp) (y # insert_by (\<lambda>e1 e2. cmp (fst e1) (fst e2)) x ys)"
      using ih by simp
    then show ?thesis using False by simp
  qed
qed

lemma sorted_js_sort:
  assumes lin: "linear_on cmp K"
  shows "fst ` set xs \<subseteq> K \<Longrightarrow> distinct (map fst xs) \<Longrightarrow>
         sorted_wrt (key_lt cmp) (js_sort (\<lambda>e1 e2. cmp (fst e1) (fst e2)) xs)"
proof (induction xs)
  case Nil
  then show ?case by simp
next
  case (Cons x xs)
  have "sorted_wrt (key_lt cmp) (js_sort (\<lambda>e1 e2. cmp (fst e1) (fst e2)) xs)"
    using Cons by simp
  moreover have "fst x \<in> K" using Cons.prems(1) by simp
  moreover have "fst ` set (js_sort (\<lambda>e1 e2. cmp (fst e1) (fst e2)) xs) \<subseteq> K"
    using Cons.prems(1) by (simp add: set_js_sort)
  moreover have "fst x \<notin> fst ` set (js_sort (\<lambda>e1 e2. cmp (fst e1) (fst e2)) xs)"
    using Cons.prems(2) by (simp add: set_js_sort)
  ultimately show ?case
    using sorted_insert_by [OF lin] by simp
qed

lemma sorted_unique:
  assumes lin: "linear_on cmp K"
  shows "fst ` set xs \<subseteq> K \<Longrightarrow> sorted_wrt (key_lt cmp) xs \<Longrightarrow> sorted_wrt (key_lt cmp) ys \<Longrightarrow>
         set xs = set ys \<Longrightarrow> xs = ys"
proof (induction xs arbitrary: ys)
  case Nil
  then show ?case by simp
next
  case (Cons x xs)
  then obtain y ys' where ys: "ys = y # ys'" by (cases ys) auto
  have irr: "\<not> key_lt cmp e e" if "fst e \<in> K" for e
    using linear_on_asym [OF lin that that] by (auto simp: key_lt_def)
  have xy: "x = y"
  proof (rule ccontr)
    assume ne: "x \<noteq> y"
    have "x \<in> set ys'" using Cons.prems(4) ys ne by auto
    then have 1: "key_lt cmp y x" using Cons.prems(3) ys by simp
    have "y \<in> set xs" using Cons.prems(4) ys ne by auto
    then have 2: "key_lt cmp x y" using Cons.prems(2) by simp
    have "fst x \<in> K" using Cons.prems(1) by simp
    moreover have "fst y \<in> K" using Cons.prems(1) \<open>y \<in> set xs\<close> by auto
    ultimately show False using 1 2 linear_on_asym [OF lin] by (auto simp: key_lt_def)
  qed
  have xK: "fst x \<in> K" using Cons.prems(1) by simp
  have "x \<notin> set xs" using Cons.prems(2) irr [OF xK] by auto
  moreover have "y \<notin> set ys'" using Cons.prems(3) ys irr [of y] xy xK by auto
  ultimately have "set xs = set ys'" using Cons.prems(4) ys xy by auto
  then have "xs = ys'" using Cons.IH Cons.prems ys by auto
  with xy ys show ?case by simp
qed

lemma entry_compare_beta: "(\<lambda>(a, _) (b, _). cmp a b) = (\<lambda>e1 e2. cmp (fst e1) (fst e2))"
  by (simp add: fun_eq_iff case_prod_beta)

lemma js_sort_permutation_invariant:
  fixes xs ys :: "(string \<times> jsval) list"
  assumes lin: "linear_on cmp (fst ` set xs)" and dx: "distinct (map fst xs)"
    and dy: "distinct (map fst ys)" and eq: "set xs = set ys"
  shows "js_sort (\<lambda>(a, _) (b, _). cmp a b) (filter P xs) = js_sort (\<lambda>(a, _) (b, _). cmp a b) (filter P ys)"
proof -
  let ?K = "fst ` set xs"
  let ?c = "\<lambda>e1 e2. cmp (fst e1) (fst e2)"
  have kx: "fst ` set (filter P xs) \<subseteq> ?K" by auto
  have ky: "fst ` set (filter P ys) \<subseteq> ?K" using eq by auto
  have sx: "sorted_wrt (key_lt cmp) (js_sort ?c (filter P xs))"
    using sorted_js_sort [OF lin kx] dx by (simp add: distinct_map_filter)
  have sy: "sorted_wrt (key_lt cmp) (js_sort ?c (filter P ys))"
    using sorted_js_sort [OF lin ky] dy by (simp add: distinct_map_filter)
  have "set (js_sort ?c (filter P xs)) = set (js_sort ?c (filter P ys))"
    using eq by (simp add: set_js_sort)
  moreover have "fst ` set (js_sort ?c (filter P xs)) \<subseteq> ?K"
    using kx by (simp add: set_js_sort)
  ultimately have "js_sort ?c (filter P xs) = js_sort ?c (filter P ys)"
    using sorted_unique [OF lin _ sx sy] by blast
  then show ?thesis by (simp only: entry_compare_beta)
qed

text \<open>
  C8 (as amended). For a comparison that is a linear order on the keys of the parameters,
  under which two different keys never compare as equal, two parameter objects with the
  same key-value pairs, listed in any order, give the same cache key for every provider
  and method.
\<close>

theorem cacheKey_order_invariant:
  "linear_on localeCompare (fst ` set params1) \<and> distinct (map fst params1)
     \<and> distinct (map fst params2) \<and> set params1 = set params2
   \<longrightarrow> cacheKey localeCompare provider method params1
       = cacheKey localeCompare provider method params2"
proof
  assume a: "linear_on localeCompare (fst ` set params1) \<and> distinct (map fst params1)
     \<and> distinct (map fst params2) \<and> set params1 = set params2"
  then have "js_sort (\<lambda>(a, _) (b, _). localeCompare a b) (filter (\<lambda>(_, v). not_nullish v) params1)
      = js_sort (\<lambda>(a, _) (b, _). localeCompare a b) (filter (\<lambda>(_, v). not_nullish v) params2)"
    using js_sort_permutation_invariant [of localeCompare params1 params2] by blast
  then show "cacheKey localeCompare provider method params1
       = cacheKey localeCompare provider method params2"
    by (simp add: cacheKey_def)
qed

theorem cacheKey_order_invariant_witness:
  "cacheKey code_compare ''pixabay'' ''searchImages'' [(''page'', JInt 1), (''q'', JStr ''sunset'')]
     = cacheKey code_compare ''pixabay'' ''searchImages'' [(''q'', JStr ''sunset''), (''page'', JInt 1)]
   \<and> cacheKey code_compare ''pixabay'' ''searchImages'' [(''q'', JStr ''sunset''), (''page'', JInt 1)]
     = ''pixabay:searchImages:page=1&q=sunset''"
proof -
  have h: "linear_on code_compare (fst ` set [(''page'', JInt 1), (''q'', JStr ''sunset'')])
     \<and> distinct (map fst [(''page'', JInt 1), (''q'', JStr ''sunset'')])
     \<and> distinct (map fst [(''q'', JStr ''sunset''), (''page'', JInt 1)])
     \<and> set [(''page'', JInt 1), (''q'', JStr ''sunset'')] = set [(''q'', JStr ''sunset''), (''page'', JInt 1)]"
    by (auto simp: linear_on_def)
  have a: "cacheKey code_compare ''pixabay'' ''searchImages'' [(''page'', JInt 1), (''q'', JStr ''sunset'')]
     = cacheKey code_compare ''pixabay'' ''searchImages'' [(''q'', JStr ''sunset''), (''page'', JInt 1)]"
    using cacheKey_order_invariant [of code_compare "[(''page'', JInt 1), (''q'', JStr ''sunset'')]"
        "[(''q'', JStr ''sunset''), (''page'', JInt 1)]" "''pixabay''" "''searchImages''"] h
    by blast
  have b: "cacheKey code_compare ''pixabay'' ''searchImages'' [(''q'', JStr ''sunset''), (''page'', JInt 1)]
     = ''pixabay:searchImages:page=1&q=sunset''"
    by code_simp
  from a b show ?thesis by simp
qed

text \<open>
  C8 (as stated) fails when two different keys compare as equal: the sort is stable and
  leaves them in the order of the object. Under a comparison that ignores control
  characters the keys \<^verbatim>\<open>a\<close> and \<^verbatim>\<open>a\u0001\<close> compare as equal, and the two orders of
  the same two parameters give two different cache keys.
\<close>

theorem cacheKey_order_counterexample:
  "set [(''a'', JInt 1), ([CHR ''a'', CHR 0x01], JInt 2)]
     = set [([CHR ''a'', CHR 0x01], JInt 2), (''a'', JInt 1)]
   \<and> distinct (map fst [(''a'', JInt 1), ([CHR ''a'', CHR 0x01], JInt 2)])
   \<and> collation_compare ''a'' [CHR ''a'', CHR 0x01] = 0
   \<and> cacheKey collation_compare ''pixabay'' ''searchImages''
         [(''a'', JInt 1), ([CHR ''a'', CHR 0x01], JInt 2)]
       = ''pixabay:searchImages:a=1&'' @ [CHR ''a'', CHR 0x01] @ ''=2''
   \<and> cacheKey collation_compare ''pixabay'' ''searchImages''
         [([CHR ''a'', CHR 0x01], JInt 2), (''a'', JInt 1)]
       = ''pixabay:searchImages:'' @ [CHR ''a'', CHR 0x01] @ ''=2&a=1''
   \<and> cacheKey collation_compare ''pixabay'' ''searchImages''
         [(''a'', JInt 1), ([CHR ''a'', CHR 0x01], JInt 2)]
       \<noteq> cacheKey collation_compare ''pixabay'' ''searchImages''
         [([CHR ''a'', CHR 0x01], JInt 2), (''a'', JInt 1)]"
  by code_simp

section \<open>Properties of the provider cache\<close>

lemma setIndex_no_failure:
  "fails st = [] \<Longrightarrow> setIndex m d st idx = (None, st\<lparr>index_slot := StoredIndex idx\<rparr>)"
  by (simp add: setIndex.simps)

lemma evict_no_failure:
  "fails st = [] \<Longrightarrow> getIndex st = Some index \<Longrightarrow>
   evict m d st n =
     (None,
      (let r = evict_loop 0 n (sort_key (ts_or_0 (timestamps index)) (keys index))
                (timestamps index) (entries st)
       in st\<lparr>entries := snd (snd r),
             index_slot := StoredIndex \<lparr>keys = fst r, timestamps = fst (snd r)\<rparr>\<rparr>))"
  by (simp add: evict.simps Let_def setIndex_no_failure)





lemma next_write_no_failure: "fails st = [] \<Longrightarrow> next_write st = (False, st)"
  by (simp add: next_write_def)

lemma fails_evict_no_failure:
  "fails st = [] \<Longrightarrow> getIndex st = Some index \<Longrightarrow> fails (snd (evict m d st n)) = []"
  by (simp add: evict_no_failure Let_def)

lemma stack_room_evict_no_failure:
  "fails st = [] \<Longrightarrow> getIndex st = Some index \<Longrightarrow> stack_room (snd (evict m d st n)) = stack_room st"
  by (simp add: evict_no_failure Let_def)

lemma fst_evict_no_failure:
  "fails st = [] \<Longrightarrow> getIndex st = Some index \<Longrightarrow> fst (evict m d st n) = None"
  by (simp add: evict_no_failure Let_def)

lemma cache_set_no_failure:
  assumes "storage c = Some st" "fails st = []" "getIndex st = Some index"
  shows "\<exists>st1. fails st1 = [] \<and> stack_room st1 = stack_room st \<and>
     cache_set_call c key v ttl now =
       (None,
        c\<lparr>storage := Some (st1\<lparr>entries := (entries st1)(key \<mapsto>
                   Entry \<lparr>entry_value = v, entry_expires = Num (of_int (now + ttl)),
                          entry_created = now\<rparr>),
                 index_slot := StoredIndex
                   \<lparr>keys = (if key \<in> set (keys index) then keys index else keys index @ [key]),
                    timestamps = (timestamps index)(key \<mapsto> now)\<rparr>\<rparr>)\<rparr>)"
proof -
  let ?m = "maxSize c"
  let ?r1 = "if length (keys index) \<ge> ?m \<and> key \<notin> set (keys index)
              then evict ?m (stack_room st) st (?m div 4) else (None, st)"
  have e1: "fst ?r1 = None" using assms(2,3) by (simp add: fst_evict_no_failure)
  have f1: "fails (snd ?r1) = []" using assms(2,3) by (simp add: fails_evict_no_failure)
  have s1: "stack_room (snd ?r1) = stack_room st"
    using assms(2,3) by (simp add: stack_room_evict_no_failure)
  from f1 have w: "next_write (snd ?r1) = (False, snd ?r1)" by (rule next_write_no_failure)
  have "cache_set_call c key v ttl now =
       (None,
        c\<lparr>storage := Some ((snd ?r1)\<lparr>entries := (entries (snd ?r1))(key \<mapsto>
                   Entry \<lparr>entry_value = v, entry_expires = Num (of_int (now + ttl)),
                          entry_created = now\<rparr>),
                 index_slot := StoredIndex
                   \<lparr>keys = (if key \<in> set (keys index) then keys index else keys index @ [key]),
                    timestamps = (timestamps index)(key \<mapsto> now)\<rparr>\<rparr>)\<rparr>)"
    using assms(1,3) f1 e1 unfolding cache_set_call_def Let_def
    by (simp only: option.case w fst_conv snd_conv if_False if_True simp_thms)
       (simp add: setIndex_no_failure)
  with f1 s1 show ?thesis by blast
qed

lemma index_keys_cache_set:
  assumes "storage c = Some st" "fails st = []" "getIndex st = Some index"
  shows "index_keys (cache_set c key v ttl now) =
     (if key \<in> set (keys index) then keys index else keys index @ [key])"
  using cache_set_no_failure [OF assms, of key v ttl now]
  by (auto simp: index_keys_def getIndex_def cache_set_def)

lemma stored_cache_set:
  assumes "storage c = Some st" "fails st = []" "getIndex st = Some index"
  shows "stored (cache_set c key v ttl now) key =
     Some (Entry \<lparr>entry_value = v, entry_expires = Num (of_int (now + ttl)), entry_created = now\<rparr>)"
  using cache_set_no_failure [OF assms, of key v ttl now]
  by (auto simp: stored_def cache_set_def)

lemma maxSize_cache_set: "maxSize (cache_set c key v ttl now) = maxSize c"
  by (simp add: cache_set_def cache_set_call_def Let_def split: option.splits)

text \<open>
  Without a failing write, a \<^verbatim>\<open>set\<close> of a new key on a full index always leaves an index
  one key longer than before: the index written last is the copy read before the
  eviction.
\<close>

lemma cache_set_at_capacity_grows_index:
  assumes "storage c = Some st" "fails st = []" "getIndex st = Some index"
    and "maxSize c \<le> length (keys index)" "key \<notin> set (keys index)"
  shows "index_keys (cache_set c key v ttl now) = keys index @ [key]"
    and "stats (cache_set c key v ttl now) = Inr (Suc (length (keys index)), maxSize c, keys index @ [key])"
proof -
  show k: "index_keys (cache_set c key v ttl now) = keys index @ [key]"
    using index_keys_cache_set [OF assms(1,2,3)] assms(5) by simp
  show "stats (cache_set c key v ttl now) = Inr (Suc (length (keys index)), maxSize c, keys index @ [key])"
    using cache_set_no_failure [OF assms(1,2,3), of key v ttl now] assms(5)
    by (auto simp: stats_def cache_set_def getIndex_def)
qed

text \<open>
  C4 (the code departs from the claim). On a cache of capacity 4 filled by six \<^verbatim>\<open>set\<close>
  calls, the index counts 5 keys after the fifth call and 6 after the sixth, and five
  entries are stored at the end: the count is above the capacity immediately after a
  \<^verbatim>\<open>set\<close>. On a cache of capacity 8 the ninth call evicts two keys, and they are the
  oldest and the third oldest: the second oldest key stays.
\<close>

theorem cache_set_exceeds_capacity:
  "stats (set_all cache4 (take 5 six_keys) 1) = Inr (5, 4, [''a'', ''b'', ''c'', ''d'', ''e''])
   \<and> stats (set_all cache4 six_keys 1) = Inr (6, 4, [''a'', ''b'', ''c'', ''d'', ''e'', ''f''])
   \<and> map (\<lambda>k. is_present (stored (set_all cache4 six_keys 1) k)) [''a'', ''b'', ''c'', ''d'', ''e'', ''f'']
       = [False, True, True, True, True, True]
   \<and> map (\<lambda>k. is_present (stored (set_all cache8 nine_keys 1) k)) [''k1'', ''k2'', ''k3'', ''k4'']
       = [False, True, False, True]"
  by code_simp

text \<open>
  C5 (the code departs from the claim). After the fifth \<^verbatim>\<open>set\<close> on the cache of capacity
  4, with no failing write, the index still lists the evicted key \<open>a\<close>, which has no
  entry. And on the same cache holding three keys, when the first write of the fourth
  \<^verbatim>\<open>set\<close> fails and the retry after the eviction succeeds, the entry \<open>d\<close> is stored
  and the index does not list it.
\<close>

theorem index_entries_diverge:
  "''a'' \<in> set (index_keys (set_all cache4 (take 5 six_keys) 1))
   \<and> stored (set_all cache4 (take 5 six_keys) 1) ''a'' = None
   \<and> is_present (stored (cache_set_default (with_fails (set_all cache4 (take 3 six_keys) 1) [True])
         ''d'' 4 4) ''d'')
   \<and> index_keys (cache_set_default (with_fails (set_all cache4 (take 3 six_keys) 1) [True]) ''d'' 4 4)
       = [''b'']"
  by code_simp

subsection \<open>Reading the cache\<close>









subsection \<open>Writes that fail and then stop failing\<close>












section \<open>Properties of the search coordinator\<close>

lemma stale_step:
  "stale a ev \<Longrightarrow>
   ui (step a ev) = ui a \<and> currentSearchId (step a ev) = currentSearchId a
   \<and> apiSearches (step a ev) = apiSearches a
   \<and> apiSearchDebounceTimer (step a ev) = apiSearchDebounceTimer a
   \<and> (\<forall>h. timers (step a ev) h = None \<or> timers (step a ev) h = timers a h)"
  by (cases ev)
    (auto simp: ui_def after_static_def after_api_def timer_callback_def resume_def
      split: option.splits continuation.splits sum.splits)

lemma bounded_performSearch: "generations_bounded a \<Longrightarrow> generations_bounded (performSearch a q)"
  apply (auto simp: performSearch_def Let_def suspend_def generations_bounded_def
      split: option.splits if_splits intro: le_SucI)
   apply (meson le_SucI)+
  done

lemma bounded_step: "generations_bounded a \<Longrightarrow> generations_bounded (step a ev)"
proof (cases ev)
  case (Search q)
  assume "generations_bounded a"
  then show ?thesis using Search by (simp add: bounded_performSearch)
next
  case (StaticDone k res)
  assume "generations_bounded a"
  then show ?thesis using StaticDone
    by (auto simp: generations_bounded_def after_static_def resume_def Let_def
        split: option.splits continuation.splits sum.splits if_splits)
next
  case (TimerFired h)
  assume "generations_bounded a"
  then show ?thesis using TimerFired
    by (auto simp: generations_bounded_def timer_callback_def suspend_def
        split: option.splits if_splits)
next
  case (ApiDone k res)
  assume "generations_bounded a"
  then show ?thesis using ApiDone
    by (auto simp: generations_bounded_def after_api_def resume_def Let_def
        split: option.splits continuation.splits sum.splits if_splits)
next
  case (SamplesDone k res)
  assume "generations_bounded a"
  then show ?thesis using SamplesDone
    by (auto simp: generations_bounded_def after_samples_def resume_def
        split: option.splits continuation.splits if_splits)
qed

lemma same_but_stale_refl: "same_but_stale a a"
  by (simp add: same_but_stale_def)

lemma same_but_stale_ui: "same_but_stale a b \<Longrightarrow> ui a = ui b"
  unfolding same_but_stale_def ui_def
  by (metis (no_types, lifting) app.select_convs app.surjective app.update_convs)

lemma same_but_stale_fields:
  assumes "same_but_stale a b"
  shows "currentSearchId a = currentSearchId b" "apiSearchDebounceTimer a = apiSearchDebounceTimer b"
    "next_timer a = next_timer b" "next_continuation a = next_continuation b"
    "enabledProviders a = enabledProviders b"
proof -
  from assms have e: "a = b\<lparr>awaiting := awaiting a, timers := timers a\<rparr>"
    by (simp add: same_but_stale_def)
  show "currentSearchId a = currentSearchId b" by (subst e) simp
  show "apiSearchDebounceTimer a = apiSearchDebounceTimer b" by (subst e) simp
  show "next_timer a = next_timer b" by (subst e) simp
  show "next_continuation a = next_continuation b" by (subst e) simp
  show "enabledProviders a = enabledProviders b" by (subst e) simp
qed

lemma same_but_stale_alt:
  "same_but_stale a b \<longleftrightarrow> (\<exists>A T. a = b\<lparr>awaiting := A, timers := T\<rparr> \<and> tables_ok A T b)"
  unfolding same_but_stale_def tables_ok_def
  apply (rule iffI)
   apply (rule exI [of _ "awaiting a"], rule exI [of _ "timers a"])
   apply simp
  apply (elim exE conjE)
  apply simp
  done

lemma sim_search:
  assumes "tables_ok A T b"
  shows "same_but_stale (performSearch (b\<lparr>awaiting := A, timers := T\<rparr>) q) (performSearch b q)"
  using assms
  unfolding same_but_stale_def tables_ok_def performSearch_def Let_def suspend_def
  apply (simp split: option.splits)
  apply (intro conjI impI allI)
  apply (auto)
  done

lemma stale_lt:
  "generations_bounded b \<Longrightarrow> awaiting b k = Some c \<Longrightarrow> generation c = Some g \<Longrightarrow>
   g \<noteq> currentSearchId b \<Longrightarrow> g < currentSearchId b"
  unfolding generations_bounded_def by (meson le_neq_implies_less)

lemma stale_timer_lt:
  "generations_bounded b \<Longrightarrow> timers b h = Some (g, q, r) \<Longrightarrow>
   g \<noteq> currentSearchId b \<Longrightarrow> g < currentSearchId b"
  unfolding generations_bounded_def by (meson le_neq_implies_less)

lemma sim_static:
  assumes "generations_bounded b" "tables_ok A T b"
  shows "same_but_stale (step (b\<lparr>awaiting := A, timers := T\<rparr>) (StaticDone k res))
           (if stale b (StaticDone k res) then b else step b (StaticDone k res))"
proof -
  from assms(2) consider
      (same) "A k = awaiting b k"
    | (gone) c g where "A k = None" "awaiting b k = Some c" "generation c = Some g" "g < currentSearchId b"
    unfolding tables_ok_def by blast
  then show ?thesis
  proof cases
    case gone
    then show ?thesis using assms(2)
      by (cases c) (auto simp: same_but_stale_alt)
  next
    case same
    show ?thesis
    proof (cases "awaiting b k")
      case None
      then show ?thesis using same assms(2) by (auto simp: same_but_stale_alt)
    next
      case (Some c)
      show ?thesis
      proof (cases c)
        case (AwaitStatic g q)
        show ?thesis
        proof (cases "g = currentSearchId b")
          case False
          then have lt: "g < currentSearchId b"
            using stale_lt [OF assms(1) Some] AwaitStatic by simp
          have "step (b\<lparr>awaiting := A, timers := T\<rparr>) (StaticDone k res)
              = b\<lparr>awaiting := A(k := None), timers := T\<rparr>"
            using same Some AwaitStatic False
            by (simp add: after_static_def resume_def split: sum.splits)
          moreover have "tables_ok (A(k := None)) T b"
            using assms(2) Some AwaitStatic lt by (auto simp: tables_ok_def)
          ultimately show ?thesis using Some AwaitStatic False
            by (auto simp: same_but_stale_alt)
        next
          case True
          have st: "\<not> stale b (StaticDone k res)" using Some AwaitStatic True by simp
          show ?thesis
          proof (cases res)
            case (Inl err)
            show ?thesis using st same Some AwaitStatic True Inl assms(2)
              unfolding same_but_stale_def tables_ok_def
              by (auto simp: after_static_def resume_def)
          next
            case (Inr staticResults)
            show ?thesis using st same Some AwaitStatic True Inr assms(2)
              unfolding same_but_stale_def tables_ok_def
              by (auto simp: after_static_def resume_def Let_def)
          qed
        qed
      next
        case (AwaitApi g q r)
        then show ?thesis using same Some assms(2) by (auto simp: same_but_stale_alt)
      next
        case AwaitSamples
        then show ?thesis using same Some assms(2) by (auto simp: same_but_stale_alt)
      qed
    qed
  qed
qed

lemma applyFilters_cong:
  assumes "excludedSources a = excludedSources b" "excludedLicenses a = excludedLicenses b"
    "sources a = sources b"
  shows "applyFilters a = applyFilters b"
  unfolding applyFilters_def itemLicense_def assms by (rule refl)

lemma applyFilters_frame:
  "applyFilters (a\<lparr>awaiting := A\<rparr>) = applyFilters a"
  "applyFilters (a\<lparr>timers := T\<rparr>) = applyFilters a"
  "applyFilters (a\<lparr>discoveredLicenses := d\<rparr>) = applyFilters a"
  by (rule applyFilters_cong; simp)+

lemma sim_api:
  assumes "generations_bounded b" "tables_ok A T b"
  shows "same_but_stale (step (b\<lparr>awaiting := A, timers := T\<rparr>) (ApiDone k res))
           (if stale b (ApiDone k res) then b else step b (ApiDone k res))"
proof -
  from assms(2) consider
      (same) "A k = awaiting b k"
    | (gone) c g where "A k = None" "awaiting b k = Some c" "generation c = Some g" "g < currentSearchId b"
    unfolding tables_ok_def by blast
  then show ?thesis
  proof cases
    case gone
    then show ?thesis using assms(2)
      by (cases c) (auto simp: same_but_stale_alt)
  next
    case same
    show ?thesis
    proof (cases "awaiting b k")
      case None
      then show ?thesis using same assms(2) by (auto simp: same_but_stale_alt)
    next
      case (Some c)
      show ?thesis
      proof (cases c)
        case (AwaitApi g q r)
        show ?thesis
        proof (cases "g = currentSearchId b")
          case False
          then have lt: "g < currentSearchId b"
            using stale_lt [OF assms(1) Some] AwaitApi by simp
          have "step (b\<lparr>awaiting := A, timers := T\<rparr>) (ApiDone k res)
              = b\<lparr>awaiting := A(k := None), timers := T\<rparr>"
            using same Some AwaitApi False
            by (simp add: after_api_def resume_def split: sum.splits)
          moreover have "tables_ok (A(k := None)) T b"
            using assms(2) Some AwaitApi lt by (auto simp: tables_ok_def)
          ultimately show ?thesis using Some AwaitApi False
            by (auto simp: same_but_stale_alt)
        next
          case True
          have st: "\<not> stale b (ApiDone k res)" using Some AwaitApi True by simp
          show ?thesis using st same Some AwaitApi True assms(2)
            unfolding same_but_stale_def tables_ok_def
            by (cases res) (auto simp: after_api_def resume_def Let_def applyFilters_frame)
        qed
      next
        case (AwaitStatic g q)
        then show ?thesis using same Some assms(2) by (auto simp: same_but_stale_alt)
      next
        case AwaitSamples
        then show ?thesis using same Some assms(2) by (auto simp: same_but_stale_alt)
      qed
    qed
  qed
qed

lemma sim_samples:
  assumes "tables_ok A T b"
  shows "same_but_stale (step (b\<lparr>awaiting := A, timers := T\<rparr>) (SamplesDone k res))
           (step b (SamplesDone k res))"
proof -
  from assms consider
      (same) "A k = awaiting b k"
    | (gone) c g where "A k = None" "awaiting b k = Some c" "generation c = Some g" "g < currentSearchId b"
    unfolding tables_ok_def by blast
  then show ?thesis
  proof cases
    case gone
    then show ?thesis using assms
      by (cases c) (auto simp: same_but_stale_alt)
  next
    case same
    show ?thesis
    proof (cases "awaiting b k")
      case None
      then show ?thesis using same assms by (auto simp: same_but_stale_alt)
    next
      case (Some c)
      then show ?thesis using same assms
        unfolding same_but_stale_def tables_ok_def
        by (cases c; cases res) (auto simp: after_samples_def resume_def)
    qed
  qed
qed

lemma sim_timer:
  assumes "generations_bounded b" "tables_ok A T b"
  shows "same_but_stale (step (b\<lparr>awaiting := A, timers := T\<rparr>) (TimerFired h))
           (if stale b (TimerFired h) then b else step b (TimerFired h))"
proof -
  from assms(2) consider
      (same) "T h = timers b h"
    | (gone) g q r where "T h = None" "timers b h = Some (g, q, r)" "g < currentSearchId b"
    unfolding tables_ok_def by blast
  then show ?thesis
  proof cases
    case gone
    then show ?thesis using assms(2) by (auto simp: same_but_stale_alt)
  next
    case same
    show ?thesis
    proof (cases "timers b h")
      case None
      then show ?thesis using same assms(2) by (auto simp: same_but_stale_alt)
    next
      case (Some x)
      obtain g q r where x: "x = (g, q, r)" by (cases x)
      show ?thesis
      proof (cases "g = currentSearchId b")
        case False
        then have lt: "g < currentSearchId b"
          using stale_timer_lt [OF assms(1)] Some x by simp
        have "step (b\<lparr>awaiting := A, timers := T\<rparr>) (TimerFired h)
            = b\<lparr>awaiting := A, timers := T(h := None)\<rparr>"
          using same Some x False by (simp add: timer_callback_def)
        moreover have "tables_ok A (T(h := None)) b"
          using assms(2) Some x lt by (auto simp: tables_ok_def)
        ultimately show ?thesis using Some x False
          by (auto simp: same_but_stale_alt)
      next
        case True
        have st: "\<not> stale b (TimerFired h)" using Some x True by simp
        show ?thesis using st same Some x True assms(2)
          unfolding same_but_stale_def tables_ok_def
          by (auto simp: timer_callback_def suspend_def)
      qed
    qed
  qed
qed

lemma sim_step:
  assumes "generations_bounded b" "same_but_stale a b"
  shows "same_but_stale (step a ev) (if stale b ev then b else step b ev)"
proof -
  from assms(2) obtain A T where a: "a = b\<lparr>awaiting := A, timers := T\<rparr>" and t: "tables_ok A T b"
    by (auto simp: same_but_stale_alt)
  show ?thesis
  proof (cases ev)
    case (Search q)
    have "\<not> stale b (Search q)" by simp
    then show ?thesis unfolding a Search using sim_search [OF t, of q] by simp
  next
    case (StaticDone k res)
    show ?thesis unfolding a StaticDone by (rule sim_static [OF assms(1) t])
  next
    case (TimerFired h)
    show ?thesis unfolding a TimerFired by (rule sim_timer [OF assms(1) t])
  next
    case (ApiDone k res)
    show ?thesis unfolding a ApiDone by (rule sim_api [OF assms(1) t])
  next
    case (SamplesDone k res)
    have "\<not> stale b (SamplesDone k res)" by simp
    then show ?thesis unfolding a SamplesDone using sim_samples [OF t, of k res]
      by (simp only: if_False)
  qed
qed

lemma sim_run:
  "generations_bounded b \<Longrightarrow> same_but_stale a b \<Longrightarrow>
   same_but_stale (run a evs) (run_without_stale b evs)"
proof (induction evs arbitrary: a b)
  case Nil
  then show ?case by simp
next
  case (Cons ev evs)
  let ?b' = "if stale b ev then b else step b ev"
  have "generations_bounded ?b'" using Cons.prems(1) by (simp add: bounded_step)
  moreover have "same_but_stale (step a ev) ?b'" using Cons.prems by (rule sim_step)
  ultimately have "same_but_stale (run (step a ev) evs) (run_without_stale ?b' evs)"
    by (rule Cons.IH)
  then show ?case by (cases "stale b ev") simp_all
qed

lemma run_ignores_stale:
  "generations_bounded a \<Longrightarrow> ui (run a evs) = ui (run_without_stale a evs)"
  using sim_run [OF _ same_but_stale_refl] by (rule same_but_stale_ui)

lemma bounded_new_app: "generations_bounded (new_app srcs providers)"
  by (auto simp: generations_bounded_def new_app_def split: if_splits)

lemma bounded_run: "generations_bounded a \<Longrightarrow> generations_bounded (run a evs)"
  by (induction evs arbitrary: a) (simp_all add: bounded_step)

lemma current_is_performSearch:
  assumes "generations_bounded a" "2 \<le> length q"
  shows "current_is (performSearch a q) q"
proof -
  have b: "generations_bounded (performSearch a q)"
    using assms(1) by (rule bounded_performSearch)
  have old: "awaiting a k = Some c \<Longrightarrow> generation c = Some g \<Longrightarrow> g \<noteq> Suc (currentSearchId a)" for k c g
    using assms(1) unfolding generations_bounded_def by (metis Suc_n_not_le_n)
  have oldt: "timers a h = Some (g, q', r) \<Longrightarrow> g \<noteq> Suc (currentSearchId a)" for h g q' r
    using assms(1) unfolding generations_bounded_def by (metis Suc_n_not_le_n)
  show ?thesis
    unfolding current_is_def
  proof (intro conjI allI impI)
    show "generations_bounded (performSearch a q)" by (rule b)
  next
    fix k q'
    assume "awaiting (performSearch a q) k = Some (AwaitStatic (currentSearchId (performSearch a q)) q')"
    then show "q' = q" using assms(2) old [of k "AwaitStatic (Suc (currentSearchId a)) q'"]
      by (auto simp: performSearch_def Let_def suspend_def split: option.splits if_splits)
  next
    fix k q' r
    assume "awaiting (performSearch a q) k = Some (AwaitApi (currentSearchId (performSearch a q)) q' r)"
    then show "q' = q" using assms(2) old [of k "AwaitApi (Suc (currentSearchId a)) q' r"]
      by (auto simp: performSearch_def Let_def suspend_def split: option.splits if_splits)
  next
    fix h q' r
    assume "timers (performSearch a q) h = Some (currentSearchId (performSearch a q), q', r)"
    then show "q' = q" using assms(2) oldt [of h "Suc (currentSearchId a)" q' r]
      by (auto simp: performSearch_def Let_def suspend_def split: option.splits if_splits)
  next
    show "shows_only (container (performSearch a q)) q" using assms(2)
      by (auto simp: performSearch_def Let_def suspend_def split: option.splits)
  qed
qed

lemma current_is_step:
  assumes "current_is a q" "resumption ev"
  shows "current_is (step a ev) q"
proof -
  have b: "generations_bounded (step a ev)"
    using assms(1) by (simp add: current_is_def bounded_step)
  show ?thesis
  proof (cases ev)
    case (StaticDone k res)
    show ?thesis using assms(1) b unfolding StaticDone current_is_def
      by (auto simp: after_static_def resume_def Let_def
          split: option.splits continuation.splits sum.splits if_splits) (blast+)?
  next
    case (TimerFired h)
    show ?thesis using assms(1) b unfolding TimerFired current_is_def
      by (auto simp: timer_callback_def suspend_def split: option.splits if_splits) (blast+)?
  next
    case (ApiDone k res)
    show ?thesis using assms(1) b unfolding ApiDone current_is_def
      by (auto simp: after_api_def resume_def Let_def
          split: option.splits continuation.splits sum.splits if_splits) (blast+)?
  next
    case (Search x)
    then show ?thesis using assms(2) by simp
  next
    case (SamplesDone k res)
    then show ?thesis using assms(2) by simp
  qed
qed

lemma current_is_run:
  "current_is a q \<Longrightarrow> \<forall>ev \<in> set evs. resumption ev \<Longrightarrow> current_is (run a evs) q"
  by (induction evs arbitrary: a) (simp_all add: current_is_step)

lemma run_append: "run a (xs @ ys) = run (run a xs) ys"
  by (induction xs arbitrary: a) simp_all

lemma only_samples_performSearch:
  assumes "generations_bounded a" "length q < 2"
  shows "only_samples_pending (performSearch a q) (next_continuation a)"
    and "ui (performSearch a q) = ui a"
proof -
  have old: "awaiting a j = Some c \<Longrightarrow> generation c = Some g \<Longrightarrow> g < Suc (currentSearchId a)" for j c g
    using assms(1) unfolding generations_bounded_def by (meson le_imp_less_Suc)
  have oldt: "timers a h = Some (g, q', r) \<Longrightarrow> g < Suc (currentSearchId a)" for h g q' r
    using assms(1) unfolding generations_bounded_def by (meson le_imp_less_Suc)
  show "only_samples_pending (performSearch a q) (next_continuation a)"
    using assms(2) old oldt
    by (auto simp: only_samples_pending_def performSearch_def Let_def suspend_def
        split: option.splits if_splits)
  show "ui (performSearch a q) = ui a"
    using assms(2) by (simp add: performSearch_def Let_def suspend_def ui_def split: option.splits)
qed

lemma only_samples_step:
  assumes "only_samples_pending a k" "resumption ev"
  shows "only_samples_pending (step a ev) k" and "ui (step a ev) = ui a"
proof -
  have n1: "awaiting a j = Some (AwaitStatic (currentSearchId a) q) \<Longrightarrow> False" for j q
    using assms(1) unfolding only_samples_pending_def
    by (metis generation.simps(1) less_irrefl)
  have n2: "awaiting a j = Some (AwaitApi (currentSearchId a) q r) \<Longrightarrow> False" for j q r
    using assms(1) unfolding only_samples_pending_def
    by (metis generation.simps(2) less_irrefl)
  have n3: "timers a h = Some (currentSearchId a, q, r) \<Longrightarrow> False" for h q r
    using assms(1) unfolding only_samples_pending_def
    by (metis less_irrefl)
  show "only_samples_pending (step a ev) k"
  proof (cases ev)
    case (StaticDone j res)
    show ?thesis using assms(1) unfolding StaticDone only_samples_pending_def
      by (auto simp: after_static_def resume_def Let_def
          split: option.splits continuation.splits sum.splits if_splits dest: n1 n2 n3) (blast+)?
  next
    case (TimerFired h)
    show ?thesis using assms(1) unfolding TimerFired only_samples_pending_def
      by (auto simp: timer_callback_def suspend_def split: option.splits if_splits dest: n1 n2 n3) (blast+)?
  next
    case (ApiDone j res)
    show ?thesis using assms(1) unfolding ApiDone only_samples_pending_def
      by (auto simp: after_api_def resume_def Let_def
          split: option.splits continuation.splits sum.splits if_splits dest: n1 n2 n3) (blast+)?
  next
    case (Search x)
    then show ?thesis using assms(2) by simp
  next
    case (SamplesDone j res)
    then show ?thesis using assms(2) by simp
  qed
  show "ui (step a ev) = ui a"
  proof (cases ev)
    case (StaticDone j res)
    show ?thesis using assms(1) unfolding StaticDone only_samples_pending_def
      by (auto simp: after_static_def resume_def Let_def ui_def
          split: option.splits continuation.splits sum.splits if_splits dest: n1 n2 n3)
  next
    case (TimerFired h)
    show ?thesis using assms(1) unfolding TimerFired only_samples_pending_def
      by (auto simp: timer_callback_def suspend_def ui_def split: option.splits if_splits dest: n1 n2 n3)
  next
    case (ApiDone j res)
    show ?thesis using assms(1) unfolding ApiDone only_samples_pending_def
      by (auto simp: after_api_def resume_def Let_def ui_def
          split: option.splits continuation.splits sum.splits if_splits dest: n1 n2 n3)
  next
    case (Search x)
    then show ?thesis using assms(2) by simp
  next
    case (SamplesDone j res)
    then show ?thesis using assms(2) by simp
  qed
qed

lemma only_samples_run:
  "only_samples_pending a k \<Longrightarrow> \<forall>ev \<in> set evs. resumption ev \<Longrightarrow>
   only_samples_pending (run a evs) k \<and> ui (run a evs) = ui a"
proof (induction evs arbitrary: a)
  case Nil
  then show ?case by simp
next
  case (Cons ev evs)
  have r: "resumption ev" using Cons.prems(2) by simp
  have 1: "only_samples_pending (step a ev) k" using Cons.prems(1) r by (rule only_samples_step)
  have 2: "ui (step a ev) = ui a" using Cons.prems(1) r by (rule only_samples_step)
  from Cons.IH [OF 1] Cons.prems(2) 2 show ?case by simp
qed

lemma samples_done_view:
  "only_samples_pending a k \<Longrightarrow> container (step a (SamplesDone k res)) = samples_view res"
  by (auto simp: only_samples_pending_def after_samples_def samples_view_def resume_def
      split: option.splits)

lemma short_query_shows_samples:
  assumes "length q2 < 2" "\<forall>e \<in> set later. resumption e"
  shows "ui (run (new_app srcs providers) (earlier @ Search q2 # later))
       = ui (run (new_app srcs providers) earlier)"
    and "container (run (new_app srcs providers)
           (earlier @ Search q2 # later
             @ [SamplesDone (next_continuation (run (new_app srcs providers) earlier)) res]))
       = samples_view res"
proof -
  let ?a = "run (new_app srcs providers) earlier"
  have b: "generations_bounded ?a" using bounded_new_app by (rule bounded_run)
  have o: "only_samples_pending (performSearch ?a q2) (next_continuation ?a)"
    using b assms(1) by (rule only_samples_performSearch)
  have u: "ui (performSearch ?a q2) = ui ?a"
    using b assms(1) by (rule only_samples_performSearch)
  have r: "only_samples_pending (run (performSearch ?a q2) later) (next_continuation ?a)
      \<and> ui (run (performSearch ?a q2) later) = ui (performSearch ?a q2)"
    using o assms(2) by (rule only_samples_run)
  show "ui (run (new_app srcs providers) (earlier @ Search q2 # later)) = ui ?a"
    using r u by (simp add: run_append)
  have "run (new_app srcs providers)
           (earlier @ Search q2 # later @ [SamplesDone (next_continuation ?a) res])
      = step (run (performSearch ?a q2) later) (SamplesDone (next_continuation ?a) res)"
    by (simp add: run_append)
  then show "container (run (new_app srcs providers)
           (earlier @ Search q2 # later @ [SamplesDone (next_continuation ?a) res]))
       = samples_view res"
    using r samples_done_view by simp
qed

text \<open>
  The continuations of a search all check the generation. Resuming a continuation or a
  timeout whose captured generation is not the current one changes neither what is
  displayed nor the result state (and starts no provider search). In every run of the
  page the displayed and result state is the one of the same run with the stale
  continuations never resumed. Once a query \<open>q2\<close> of at least two characters has been
  issued, whatever was going on before, and whatever continuations and timeouts of
  searches are resumed afterwards in whatever order, the page shows only \<open>q2\<close>: its
  loading mark, its error message or its results. Once a shorter query has been issued,
  those resumptions change nothing at all, and the page shows the sample view of that
  query as soon as it is loaded.
\<close>

lemma stale_results_are_dropped:
  "(stale a ev \<longrightarrow>
      ui (step a ev) = ui a \<and> currentSearchId (step a ev) = currentSearchId a
      \<and> apiSearches (step a ev) = apiSearches a)
   \<and> ui (run (new_app srcs providers) evs) = ui (run_without_stale (new_app srcs providers) evs)
   \<and> (2 \<le> length q2 \<and> (\<forall>e \<in> set later. resumption e) \<longrightarrow>
        shows_only (container (run (new_app srcs providers) (earlier @ Search q2 # later))) q2)
   \<and> (length q2 < 2 \<and> (\<forall>e \<in> set later. resumption e) \<longrightarrow>
        ui (run (new_app srcs providers) (earlier @ Search q2 # later))
          = ui (run (new_app srcs providers) earlier)
        \<and> container (run (new_app srcs providers)
              (earlier @ Search q2 # later
                @ [SamplesDone (next_continuation (run (new_app srcs providers) earlier)) res]))
          = samples_view res)"
proof (intro conjI impI)
  assume "stale a ev"
  then show "ui (step a ev) = ui a" and "currentSearchId (step a ev) = currentSearchId a"
    and "apiSearches (step a ev) = apiSearches a"
    using stale_step [of a ev] by blast+
next
  show "ui (run (new_app srcs providers) evs) = ui (run_without_stale (new_app srcs providers) evs)"
    using bounded_new_app by (rule run_ignores_stale)
next
  assume a: "2 \<le> length q2 \<and> (\<forall>e \<in> set later. resumption e)"
  let ?a = "run (new_app srcs providers) earlier"
  have "generations_bounded ?a" using bounded_new_app by (rule bounded_run)
  then have "current_is (performSearch ?a q2) q2" using a by (simp add: current_is_performSearch)
  then have "current_is (run (performSearch ?a q2) later) q2" using a by (simp add: current_is_run)
  then show "shows_only (container (run (new_app srcs providers) (earlier @ Search q2 # later))) q2"
    by (simp add: run_append current_is_def)
next
  assume "length q2 < 2 \<and> (\<forall>e \<in> set later. resumption e)"
  then show "ui (run (new_app srcs providers) (earlier @ Search q2 # later))
          = ui (run (new_app srcs providers) earlier)"
    using short_query_shows_samples(1) [of q2 later srcs providers earlier] by blast
next
  assume "length q2 < 2 \<and> (\<forall>e \<in> set later. resumption e)"
  then show "container (run (new_app srcs providers)
              (earlier @ Search q2 # later
                @ [SamplesDone (next_continuation (run (new_app srcs providers) earlier)) res]))
          = samples_view res"
    using short_query_shows_samples(2) [of q2 later srcs providers earlier res] by blast
qed

text \<open>
  The run with two overlapping searches: the providers' answer for \<open>moon\<close> is stale
  when it arrives and is dropped, and the page ends on the merged results for \<open>sun\<close>.
\<close>

lemma overlapping_searches_show_the_last:
  "stale (run (new_app [] [''pexels'']) (take 5 overlapping_searches)) (ApiDone 2 (Inr [moon_photo]))
   \<and> ui (step (run (new_app [] [''pexels'']) (take 5 overlapping_searches)) (ApiDone 2 (Inr [moon_photo])))
     = ui (run (new_app [] [''pexels'']) (take 5 overlapping_searches))
   \<and> container (run (new_app [] [''pexels'']) overlapping_searches)
       = Shown [sun_icon, sunset_icon, sunny_photo] (Some ''sun'') False"
  by code_simp

text \<open>
  C2 (the code departs from the claim). The continuation of \<^verbatim>\<open>loadAndDisplaySamples\<close>
  is the one that checks no generation. In the run with two overlapping searches the
  sample view of the page load is still being fetched; when it arrives after the
  results for \<open>sun\<close> are on the page, it replaces them, although \<open>sun\<close> is the query
  issued last and its generation is the current one. The same happens to the sample
  view of a one-letter query typed before \<open>moon\<close> and \<open>sun\<close>.
\<close>

theorem sample_view_overwrites_search:
  "container (run (new_app [] [''pexels'']) overlapping_searches)
     = Shown [sun_icon, sunset_icon, sunny_photo] (Some ''sun'') False
   \<and> container (run (new_app [] [''pexels''])
        (overlapping_searches @ [SamplesDone 0 (Some [heart_icon])]))
     = Shown [heart_icon] None False
   \<and> \<not> shows_only (container (run (new_app [] [''pexels''])
        (overlapping_searches @ [SamplesDone 0 (Some [heart_icon])]))) ''sun''
   \<and> currentSearchId (run (new_app [] [''pexels''])
        (overlapping_searches @ [SamplesDone 0 (Some [heart_icon])])) = 2
   \<and> currentResults (run (new_app [] [''pexels''])
        (overlapping_searches @ [SamplesDone 0 (Some [heart_icon])]))
     = [sun_icon, sunset_icon, sunny_photo]
   \<and> container (run (new_app [] []) searches_after_short_query)
     = Shown [sun_icon, sunset_icon] (Some ''sun'') True
   \<and> currentSearchId (run (new_app [] []) searches_after_short_query) = 3
   \<and> container (run (new_app [] [])
        (searches_after_short_query @ [SamplesDone 1 (Some [heart_icon])]))
     = Shown [heart_icon] None False"
  by code_simp

section \<open>Properties of the provider fan-out\<close>

subsection \<open>The merged result of the provider client\<close>






subsection \<open>The provider searches of the page\<close>






subsection \<open>The merge of the coordinator\<close>










end
